theory Spec2Isabelle
  imports Complex_Main "HOL-Library.Sublist" "HOL-Library.Multiset"
    "HOL-Library.Char_ord" "HOL-Library.List_Lexorder" "HOL-Library.Log_Nat"
begin

section \<open>Data model\<close>

text \<open>
  The metrics of \<^verbatim>\<open>coh/metrics/constituents.py\<close> read the resources of one text from the
  resource pool \<^verbatim>\<open>rp\<close>: the constituency parse trees, the tagged sentences, the
  dependency trees and the leaves of the top-level noun phrases. The model passes these
  resources to each \<^verbatim>\<open>value_for_text\<close> as arguments, together with the tagset predicates
  the metric asks the taggers for.

  Python numbers are read with exact arithmetic: an \<^verbatim>\<open>int\<close> is an \<^typ>\<open>int\<close> (a length is a
  \<^typ>\<open>nat\<close>), and the result of a true division is a \<^typ>\<open>real\<close>. The rounding of binary
  floating point is the subject of a section of its own, below. An exception is a value
  \<open>Inl e\<close> of the result, and a value the function returns is \<open>Inr v\<close>.
\<close>

datatype py_error = ZeroDivisionError | IndexError | ValueError | OverflowError

text \<open>A tagged word is the pair (surface form, part-of-speech tag).\<close>

type_synonym tagged_word = "string \<times> string"

text \<open>An \<^verbatim>\<open>nltk.Tree\<close>: a labelled node over its children; a leaf is a token.\<close>

datatype parse_tree = Leaf string | Tree string "parse_tree list"

text \<open>
  A node of a dependency graph is a dictionary; the metric reads its keys \<^verbatim>\<open>rel\<close> and
  \<^verbatim>\<open>tag\<close>. A dependency tree is given as the list \<^verbatim>\<open>tree.nodes.values()\<close>.
\<close>

record dep_node =
  rel :: string
  tag :: string

type_synonym dep_tree = "dep_node list"

text \<open>
  A value of numpy's \<^verbatim>\<open>float64\<close>, read exactly: a real number, or NaN, which numpy returns
  for the mean of an empty sequence.
\<close>

datatype npfloat = Num real | NaN

record metric =
  name :: string
  column_name :: string

section \<open>Library functions the metrics call\<close>

text \<open>
  \<^verbatim>\<open>Tree.subtrees()\<close> of nltk yields the tree and every subtree below it, in preorder;
  tokens are not subtrees, so that \<open>label\<close> is only ever asked of a \<open>Tree\<close>.
\<close>

fun subtrees :: "parse_tree \<Rightarrow> parse_tree list" where
  "subtrees (Leaf w) = []"
| "subtrees (Tree l cs) = Tree l cs # concat (map subtrees cs)"

fun label :: "parse_tree \<Rightarrow> string" where
  "label (Leaf w) = w"
| "label (Tree l cs) = l"

text \<open>
  Modelled from the spec: \<^verbatim>\<open>find_subtrees\<close> of \<^verbatim>\<open>coh.utils\<close> is not among the sources. The
  metric counts with it the "constituents labeled NP in the parse tree", so it returns the
  subtrees that carry the given label.
\<close>

definition find_subtrees :: "parse_tree \<Rightarrow> string \<Rightarrow> parse_tree list" where
  "find_subtrees tree lab = filter (\<lambda>s. label s = lab) (subtrees tree)"

text \<open>Python's \<^verbatim>\<open>xs.index(v)\<close>: the first position of \<open>v\<close>, or \<^verbatim>\<open>ValueError\<close>.\<close>

fun py_index_from :: "nat \<Rightarrow> 'a list \<Rightarrow> 'a \<Rightarrow> py_error + nat" where
  "py_index_from i [] v = Inl ValueError"
| "py_index_from i (x # xs) v = (if x = v then Inr i else py_index_from (Suc i) xs v)"

definition py_index :: "'a list \<Rightarrow> 'a \<Rightarrow> py_error + nat" where
  "py_index xs v = py_index_from 0 xs v"

text \<open>
  Python's \<^verbatim>\<open>max\<close> and \<^verbatim>\<open>min\<close> of a list: \<^verbatim>\<open>ValueError\<close> on the empty list, otherwise
  a scan that keeps the first extreme item.
\<close>

definition py_max :: "nat list \<Rightarrow> py_error + nat" where
  "py_max xs = (case xs of
      [] \<Rightarrow> Inl ValueError
    | x # ys \<Rightarrow> Inr (fold (\<lambda>item m. if item > m then item else m) ys x))"

definition py_min :: "nat list \<Rightarrow> py_error + nat" where
  "py_min xs = (case xs of
      [] \<Rightarrow> Inl ValueError
    | x # ys \<Rightarrow> Inr (fold (\<lambda>item m. if item < m then item else m) ys x))"

text \<open>
  \<^verbatim>\<open>numpy.mean\<close> of a sequence: the sum over the number of items; NaN when the sequence is
  empty (numpy divides zero by zero and warns) and when an item is NaN.
\<close>

fun np_sum :: "npfloat list \<Rightarrow> npfloat" where
  "np_sum [] = Num 0"
| "np_sum (NaN # xs) = NaN"
| "np_sum (Num x # xs) = (case np_sum xs of NaN \<Rightarrow> NaN | Num s \<Rightarrow> Num (x + s))"

definition np_mean :: "npfloat list \<Rightarrow> npfloat" where
  "np_mean xs = (if xs = [] then NaN
     else case np_sum xs of NaN \<Rightarrow> NaN | Num s \<Rightarrow> Num (s / real (length xs)))"

text \<open>
  \<^verbatim>\<open>numpy.std\<close> with its default \<^verbatim>\<open>ddof=0\<close>: the square root of the mean of the squared
  deviations from the mean; NaN on the empty sequence.
\<close>

definition np_std :: "npfloat list \<Rightarrow> npfloat" where
  "np_std xs = (case np_mean xs of
      NaN \<Rightarrow> NaN
    | Num m \<Rightarrow>
        (case np_mean (map (\<lambda>x. case x of NaN \<Rightarrow> NaN | Num v \<Rightarrow> Num ((abs (v - m))\<^sup>2)) xs)
         of
           NaN \<Rightarrow> NaN
         | Num var \<Rightarrow> Num (sqrt var)))"

text \<open>A list of Python integers handed to numpy.\<close>

definition np_array :: "nat list \<Rightarrow> npfloat list" where
  "np_array xs = map (\<lambda>n. Num (real n)) xs"

section \<open>The metrics\<close>

subsection \<open>Noun phrase sizes\<close>

text \<open>
  \<^verbatim>\<open>[len(toplevel) for leaves in rp.leaves_in_toplevel_nps(t) for toplevel in leaves]\<close>:
  the sizes of the top-level noun phrases of the whole text, in one list.
\<close>

definition np_sizes :: "'a list list list \<Rightarrow> nat list" where
  "np_sizes all_leaves = concat (map (\<lambda>leaves. map length leaves) all_leaves)"

text \<open>The numpy reductions raise no error: the two metrics that use them always return.\<close>

definition MeanNounPhrase_value_for_text :: "'a list list list \<Rightarrow> py_error + npfloat" where
  "MeanNounPhrase_value_for_text all_leaves =
     (let mean_sizes = map (\<lambda>sent. np_mean (np_array (map length sent))) all_leaves
      in Inr (np_mean mean_sizes))"

definition MaxNounPhrase_value_for_text :: "'a list list list \<Rightarrow> py_error + nat" where
  "MaxNounPhrase_value_for_text all_leaves = py_max (np_sizes all_leaves)"

definition MinNounPhrase_value_for_text :: "'a list list list \<Rightarrow> py_error + nat" where
  "MinNounPhrase_value_for_text all_leaves = py_min (np_sizes all_leaves)"

definition StdNounPhrase_value_for_text :: "'a list list list \<Rightarrow> py_error + npfloat" where
  "StdNounPhrase_value_for_text all_leaves = Inr (np_std (np_array (np_sizes all_leaves)))"

subsection \<open>Noun phrase incidence\<close>

text \<open>
  The loop of \<^verbatim>\<open>NounPhraseIncidence.value_for_text\<close> over \<^verbatim>\<open>enumerate(parse_trees)\<close>,
  with the index \<open>i\<close> and the list \<^verbatim>\<open>sent_indices\<close> built so far. \<^verbatim>\<open>tagged_sents[i]\<close>
  raises \<^verbatim>\<open>IndexError\<close> beyond the end of the list, and the division raises
  \<^verbatim>\<open>ZeroDivisionError\<close> when \<^verbatim>\<open>words / 1000\<close> is zero.
\<close>

fun NounPhraseIncidence_sent_indices ::
  "(tagged_word \<Rightarrow> bool) \<Rightarrow> tagged_word list list \<Rightarrow> nat \<Rightarrow> parse_tree list \<Rightarrow> real list
     \<Rightarrow> py_error + real list" where
  "NounPhraseIncidence_sent_indices is_punctuation tagged_sents i [] sent_indices =
     Inr sent_indices"
| "NounPhraseIncidence_sent_indices is_punctuation tagged_sents i (tree # rest) sent_indices =
     (let nps = length (find_subtrees tree ''NP'') in
      if length tagged_sents \<le> i then Inl IndexError
      else
        let words = length (filter (\<lambda>word. \<not> is_punctuation word) (tagged_sents ! i)) in
        if real words / 1000 = 0 then Inl ZeroDivisionError
        else NounPhraseIncidence_sent_indices is_punctuation tagged_sents (Suc i) rest
               (sent_indices @ [real nps / (real words / 1000)]))"

definition NounPhraseIncidence_value_for_text ::
  "(tagged_word \<Rightarrow> bool) \<Rightarrow> parse_tree list \<Rightarrow> tagged_word list list \<Rightarrow> py_error + real" where
  "NounPhraseIncidence_value_for_text is_punctuation parse_trees tagged_sents =
     (case NounPhraseIncidence_sent_indices is_punctuation tagged_sents 0 parse_trees [] of
        Inl e \<Rightarrow> Inl e
      | Inr sent_indices \<Rightarrow>
          Inr (if sent_indices \<noteq> [] then sum_list sent_indices / real (length sent_indices)
               else 0))"

subsection \<open>Words before the main verb\<close>

text \<open>\<^verbatim>\<open>token[0][-2:]\<close>: the last two characters of a string, or all of a shorter one.\<close>

definition last_two :: "string \<Rightarrow> string" where
  "last_two s = drop (length s - 2) s"

text \<open>
  The inner loop over \<^verbatim>\<open>enumerate(tagged_sent)\<close>: the index of the first verb that does
  not end like a gerund, a participle or an infinitive; \<^verbatim>\<open>i_main_verb\<close> keeps its value
  when the loop ends without a \<^verbatim>\<open>break\<close>.
\<close>

fun first_finite_verb ::
  "(tagged_word \<Rightarrow> bool) \<Rightarrow> nat \<Rightarrow> tagged_word list \<Rightarrow> int \<Rightarrow> int" where
  "first_finite_verb is_verb i [] i_main_verb = i_main_verb"
| "first_finite_verb is_verb i (token # rest) i_main_verb =
     (if is_verb token \<and> last_two (fst token) \<notin> set [''do'', ''ar'', ''er'', ''ir'']
      then int i
      else first_finite_verb is_verb (Suc i) rest i_main_verb)"

text \<open>
  The body of the loop over \<^verbatim>\<open>zip(trees, words)\<close> for one sentence. \<open>dep_is_verb\<close> is
  \<^verbatim>\<open>is_verb\<close> of the dependency parser's tagset, \<open>is_verb\<close> that of the part-of-speech
  tagger.
\<close>

definition WordsBeforeMainVerb_sent_score ::
  "(tagged_word \<Rightarrow> bool) \<Rightarrow> (tagged_word \<Rightarrow> bool) \<Rightarrow> dep_tree \<Rightarrow> tagged_word list
     \<Rightarrow> py_error + int" where
  "WordsBeforeMainVerb_sent_score dep_is_verb is_verb tree tagged_sent =
     (case py_index (map rel tree) ''ROOT'' of
        Inl e \<Rightarrow> Inl e
      | Inr i_root \<Rightarrow>
          Inr (if dep_is_verb ([], tag (tree ! i_root)) then int i_root - 1
               else first_finite_verb is_verb 0 tagged_sent 0))"

fun WordsBeforeMainVerb_sent_scores ::
  "(tagged_word \<Rightarrow> bool) \<Rightarrow> (tagged_word \<Rightarrow> bool) \<Rightarrow> (dep_tree \<times> tagged_word list) list
     \<Rightarrow> int list \<Rightarrow> py_error + int list" where
  "WordsBeforeMainVerb_sent_scores dep_is_verb is_verb [] sent_scores = Inr sent_scores"
| "WordsBeforeMainVerb_sent_scores dep_is_verb is_verb ((tree, tagged_sent) # rest) sent_scores =
     (case WordsBeforeMainVerb_sent_score dep_is_verb is_verb tree tagged_sent of
        Inl e \<Rightarrow> Inl e
      | Inr i_main_verb \<Rightarrow>
          WordsBeforeMainVerb_sent_scores dep_is_verb is_verb rest
            (sent_scores @ [i_main_verb]))"

definition WordsBeforeMainVerb_value_for_text ::
  "(tagged_word \<Rightarrow> bool) \<Rightarrow> (tagged_word \<Rightarrow> bool) \<Rightarrow> dep_tree list \<Rightarrow> tagged_word list list
     \<Rightarrow> py_error + real" where
  "WordsBeforeMainVerb_value_for_text dep_is_verb is_verb trees words =
     (case WordsBeforeMainVerb_sent_scores dep_is_verb is_verb (zip trees words) [] of
        Inl e \<Rightarrow> Inl e
      | Inr sent_scores \<Rightarrow>
          Inr (if sent_scores \<noteq> []
               then real_of_int (sum_list sent_scores) / real (length sent_scores)
               else 0))"

subsection \<open>The category\<close>

record category =
  category_name :: string
  table_name :: string
  metrics :: "metric list"

definition NounPhraseIncidence :: metric where
  "NounPhraseIncidence = \<lparr>name = ''Noun Phrase Incidence'', column_name = ''np_incidence''\<rparr>"

definition MeanNounPhrase :: metric where
  "MeanNounPhrase = \<lparr>name = ''Mean Noun Phrase'', column_name = ''mean_noun_phrase''\<rparr>"

definition MaxNounPhrase :: metric where
  "MaxNounPhrase = \<lparr>name = ''Maximum Noun Phrase'', column_name = ''max_noun_phrase''\<rparr>"

definition MinNounPhrase :: metric where
  "MinNounPhrase = \<lparr>name = ''Minimum Noun Phrase'', column_name = ''min_noun_phrase''\<rparr>"

definition StdNounPhrase :: metric where
  "StdNounPhrase = \<lparr>name = ''Std Noun Phrase'', column_name = ''std_noun_phrase''\<rparr>"

definition WordsBeforeMainVerb :: metric where
  "WordsBeforeMainVerb =
     \<lparr>name = ''Words before Main Verb'', column_name = ''words_before_main_verb''\<rparr>"

text \<open>
  \<^verbatim>\<open>Constituents.__init__\<close>. \<^verbatim>\<open>_set_metrics_from_module\<close> belongs to \<^verbatim>\<open>coh.base\<close>, which
  is not among the sources; the list of metric instances it leaves in \<^verbatim>\<open>self.metrics\<close> is
  the argument \<open>discovered\<close>. \<^verbatim>\<open>list.sort(key=...)\<close> is a stable sort, and Python compares
  strings character by character.
\<close>

definition Constituents_init :: "metric list \<Rightarrow> category" where
  "Constituents_init discovered =
     \<lparr>category_name = ''Constituents'', table_name = ''constituents'',
      metrics = sort_key name discovered\<rparr>"

subsection \<open>The resource pool\<close>

text \<open>
  Modelled from the spec: the resource pool, \<^verbatim>\<open>coh.resource_pool\<close>, is not among the
  sources. Its resource kinds are those the spec lists: "sentence tokenization, POS tagging,
  constituency parsing, dependency parsing, noun-phrase-leaf extraction". Its state is the
  cache, from (text, kind) pairs to resources; \<open>invocations\<close> counts the calls of the
  external tool for each pair, as the invocation counter of a test double would.
\<close>

datatype resource_kind = Sentences | TaggedSentences | ParseTrees | DepTrees | ToplevelNPLeaves

datatype 't pool_error = ToolFailure resource_kind 't

record ('t, 'r) resource_pool =
  cache :: "'t \<times> resource_kind \<rightharpoonup> 'r"
  invocations :: "'t \<times> resource_kind \<Rightarrow> nat"

definition empty_pool :: "('t, 'r) resource_pool" where
  "empty_pool = \<lparr>cache = Map.empty, invocations = (\<lambda>_. 0)\<rparr>"

text \<open>
  Modelled from the spec: \<^verbatim>\<open>get_or_compute(text, resource_kind)\<close> of the resource pool, which
  is not among the sources. "On first request for a (text, kind) pair, invokes the
  corresponding external tool and stores the result; subsequent requests for the same pair
  return the cached value without recomputation." "If the underlying tool fails, the failure
  propagates to the caller as a recoverable error tagged with the resource kind and text
  identity; the cache must not retain a poisoned entry." The external tool is the function
  \<open>tool\<close>, which returns \<open>None\<close> when it fails.
\<close>

definition get_or_compute ::
  "('t \<Rightarrow> resource_kind \<Rightarrow> 'r option) \<Rightarrow> ('t, 'r) resource_pool \<Rightarrow> 't \<Rightarrow> resource_kind
     \<Rightarrow> ('t pool_error + 'r) \<times> ('t, 'r) resource_pool" where
  "get_or_compute tool p text kind =
     (case cache p (text, kind) of
        Some r \<Rightarrow> (Inr r, p)
      | None \<Rightarrow>
          (let p' = p\<lparr>invocations :=
                       (invocations p)((text, kind) := Suc (invocations p (text, kind)))\<rparr>
           in case tool text kind of
                None \<Rightarrow> (Inl (ToolFailure kind text), p')
              | Some r \<Rightarrow> (Inr r, p'\<lparr>cache := (cache p')((text, kind) \<mapsto> r)\<rparr>)))"

text \<open>The pool after a sequence of requests.\<close>

fun serve ::
  "('t \<Rightarrow> resource_kind \<Rightarrow> 'r option) \<Rightarrow> ('t, 'r) resource_pool \<Rightarrow> ('t \<times> resource_kind) list
     \<Rightarrow> ('t, 'r) resource_pool" where
  "serve tool p [] = p"
| "serve tool p ((text, kind) # reqs) = serve tool (snd (get_or_compute tool p text kind)) reqs"

section \<open>Binary floating point\<close>

text \<open>
  The definitions above read Python's arithmetic exactly. A Python \<^verbatim>\<open>float\<close> is an IEEE 754
  binary64 number, and each operation rounds its exact result to the nearest such number,
  ties to the even significand. This section gives that arithmetic, and
  \<^verbatim>\<open>NounPhraseIncidence.value_for_text\<close> once more over it, for the one property that is
  about the rounded result itself. A finite float is the rational number it stands for (the
  two zeros are one value: the code never tells them apart).
\<close>

datatype float64 = Finite rat | PosInf | NegInf | NotANumber

text \<open>
  The exponent of a positive rational \<open>q\<close>: the integer \<open>e\<close> with \<open>2\<^sup>e \<le> q < 2\<^sup>e\<^sup>+\<^sup>1\<close>, from the
  bit lengths of the numerator and the denominator.
\<close>

definition ilog2 :: "rat \<Rightarrow> int" where
  "ilog2 q = (let (a, b) = quotient_of q; k = bitlen a - bitlen b
              in if 2 powi k \<le> q then k else k - 1)"

text \<open>The nearest integer, a tie going to the even one.\<close>

definition round_half_even :: "rat \<Rightarrow> int" where
  "round_half_even x =
     (let n = \<lfloor>x\<rfloor>; r = x - of_int n
      in if r < 1 / 2 then n else if 1 / 2 < r then n + 1 else if even n then n else n + 1)"

text \<open>
  Rounding to binary64: 53 significant bits, so the spacing of the floats around \<open>q\<close> is
  \<open>2\<^sup>e\<^sup>-\<^sup>5\<^sup>2\<close>; the exponent is at least \<open>-1022\<close> (below that the spacing stays that of the
  subnormal numbers), and a result of magnitude \<open>2\<^sup>1\<^sup>0\<^sup>2\<^sup>4\<close> or more is an infinity.
\<close>

definition round_binary64 :: "rat \<Rightarrow> float64" where
  "round_binary64 q =
     (if q = 0 then Finite 0
      else
        let a = \<bar>q\<bar>;
            e = max (ilog2 a) (- 1022);
            ulp = 2 powi (e - 52);
            x = of_int (round_half_even (a / ulp)) * ulp
        in if 2 powi 1024 \<le> x then (if 0 < q then PosInf else NegInf)
           else Finite (if 0 < q then x else - x))"

text \<open>Addition and division of two floats, with the infinities and NaN of IEEE 754.\<close>

fun float_add :: "float64 \<Rightarrow> float64 \<Rightarrow> float64" where
  "float_add (Finite a) (Finite b) = round_binary64 (a + b)"
| "float_add NotANumber y = NotANumber"
| "float_add x NotANumber = NotANumber"
| "float_add PosInf NegInf = NotANumber"
| "float_add NegInf PosInf = NotANumber"
| "float_add PosInf y = PosInf"
| "float_add x PosInf = PosInf"
| "float_add NegInf y = NegInf"
| "float_add x NegInf = NegInf"

text \<open>The divisor is not zero: Python raises before it divides.\<close>

fun float_div :: "float64 \<Rightarrow> float64 \<Rightarrow> float64" where
  "float_div (Finite a) (Finite b) = round_binary64 (a / b)"
| "float_div NotANumber y = NotANumber"
| "float_div x NotANumber = NotANumber"
| "float_div (Finite a) y = Finite 0"
| "float_div PosInf (Finite b) = (if 0 < b then PosInf else NegInf)"
| "float_div NegInf (Finite b) = (if 0 < b then NegInf else PosInf)"
| "float_div x y = NotANumber"

text \<open>
  The conversion of an \<^verbatim>\<open>int\<close> to a \<^verbatim>\<open>float\<close> and the true division of two \<^verbatim>\<open>int\<close>s are
  correctly rounded; both raise \<^verbatim>\<open>OverflowError\<close> when the result is too large for a
  float.
\<close>

definition float_of_int :: "int \<Rightarrow> py_error + float64" where
  "float_of_int n = (case round_binary64 (of_int n) of
       Finite x \<Rightarrow> Inr (Finite x)
     | _ \<Rightarrow> Inl OverflowError)"

definition int_truediv :: "int \<Rightarrow> int \<Rightarrow> py_error + float64" where
  "int_truediv a b =
     (if b = 0 then Inl ZeroDivisionError
      else case round_binary64 (of_int a / of_int b) of
             Finite x \<Rightarrow> Inr (Finite x)
           | _ \<Rightarrow> Inl OverflowError)"

text \<open>
  \<^verbatim>\<open>x / y\<close> on floats raises \<^verbatim>\<open>ZeroDivisionError\<close> when \<open>y\<close> is zero and divides as IEEE 754
  does otherwise. With an \<^verbatim>\<open>int\<close> on one side, the \<^verbatim>\<open>int\<close> is converted first.
\<close>

definition float_truediv :: "float64 \<Rightarrow> float64 \<Rightarrow> py_error + float64" where
  "float_truediv x y = (if y = Finite 0 then Inl ZeroDivisionError else Inr (float_div x y))"

definition int_float_truediv :: "int \<Rightarrow> float64 \<Rightarrow> py_error + float64" where
  "int_float_truediv n y = (case float_of_int n of
       Inl e \<Rightarrow> Inl e
     | Inr x \<Rightarrow> float_truediv x y)"

definition float_int_truediv :: "float64 \<Rightarrow> int \<Rightarrow> py_error + float64" where
  "float_int_truediv x n = (case float_of_int n of
       Inl e \<Rightarrow> Inl e
     | Inr y \<Rightarrow> float_truediv x y)"

text \<open>
  \<^verbatim>\<open>sum\<close> of a list of floats adds the items to the start value 0 from left to right,
  rounding each partial sum. (CPython from version 3.12 on also carries a correction term
  for the rounding errors along; the example below gives the same result either way.)
\<close>

definition py_sum :: "float64 list \<Rightarrow> float64" where
  "py_sum xs = foldl float_add (Finite 0) xs"

text \<open>
  \<^verbatim>\<open>NounPhraseIncidence.value_for_text\<close> over binary64. The \<^verbatim>\<open>0\<close> of a text without
  sentences is the float zero here.
\<close>

fun NounPhraseIncidence_sent_indices_binary64 ::
  "(tagged_word \<Rightarrow> bool) \<Rightarrow> tagged_word list list \<Rightarrow> nat \<Rightarrow> parse_tree list \<Rightarrow> float64 list
     \<Rightarrow> py_error + float64 list" where
  "NounPhraseIncidence_sent_indices_binary64 is_punctuation tagged_sents i [] sent_indices =
     Inr sent_indices"
| "NounPhraseIncidence_sent_indices_binary64 is_punctuation tagged_sents i (tree # rest)
     sent_indices =
     (let nps = length (find_subtrees tree ''NP'') in
      if length tagged_sents \<le> i then Inl IndexError
      else
        let words = length (filter (\<lambda>word. \<not> is_punctuation word) (tagged_sents ! i)) in
        case int_truediv (int words) 1000 of
          Inl e \<Rightarrow> Inl e
        | Inr d \<Rightarrow>
            (case int_float_truediv (int nps) d of
               Inl e \<Rightarrow> Inl e
             | Inr x \<Rightarrow>
                 NounPhraseIncidence_sent_indices_binary64 is_punctuation tagged_sents (Suc i)
                   rest (sent_indices @ [x])))"

definition NounPhraseIncidence_value_for_text_binary64 ::
  "(tagged_word \<Rightarrow> bool) \<Rightarrow> parse_tree list \<Rightarrow> tagged_word list list \<Rightarrow> py_error + float64" where
  "NounPhraseIncidence_value_for_text_binary64 is_punctuation parse_trees tagged_sents =
     (case NounPhraseIncidence_sent_indices_binary64 is_punctuation tagged_sents 0 parse_trees []
      of
        Inl e \<Rightarrow> Inl e
      | Inr sent_indices \<Rightarrow>
          if sent_indices \<noteq> []
          then float_int_truediv (py_sum sent_indices) (int (length sent_indices))
          else Inr (Finite 0))"

section \<open>The quantities the properties speak of\<close>

text \<open>The arithmetic mean of a non-empty list of numbers.\<close>

definition arithmetic_mean :: "real list \<Rightarrow> real" where
  "arithmetic_mean xs = sum_list xs / real (length xs)"

text \<open>The number of constituents of a parse tree that carry a given label.\<close>

fun count_constituents :: "string \<Rightarrow> parse_tree \<Rightarrow> nat" where
  "count_constituents lab (Leaf w) = 0"
| "count_constituents lab (Tree l cs) =
     (if l = lab then 1 else 0) + sum_list (map (count_constituents lab) cs)"

text \<open>The number of tokens of a tagged sentence that are not punctuation.\<close>

definition word_count :: "(tagged_word \<Rightarrow> bool) \<Rightarrow> tagged_word list \<Rightarrow> nat" where
  "word_count is_punctuation sent = length (filter (\<lambda>w. \<not> is_punctuation w) sent)"

text \<open>The score of one sentence: noun phrases per thousand words.\<close>

definition incidence :: "(tagged_word \<Rightarrow> bool) \<Rightarrow> parse_tree \<times> tagged_word list \<Rightarrow> real" where
  "incidence is_punctuation = (\<lambda>(tree, sent).
     real (count_constituents ''NP'' tree) / (real (word_count is_punctuation sent) / 1000))"

text \<open>
  The same score as Python computes it in binary64: \<^verbatim>\<open>nps / (words / 1000)\<close>.
\<close>

definition incidence_binary64 :: "nat \<Rightarrow> nat \<Rightarrow> py_error + float64" where
  "incidence_binary64 nps words = (case int_truediv (int words) 1000 of
       Inl e \<Rightarrow> Inl e
     | Inr d \<Rightarrow> int_float_truediv (int nps) d)"

text \<open>
  The standard deviation of a population (divisor \<open>n\<close>) and of a sample (divisor
  \<open>n - 1\<close>).
\<close>

definition population_std :: "real list \<Rightarrow> real" where
  "population_std xs =
     (let n = real (length xs); mu = sum_list xs / n
      in sqrt (sum_list (map (\<lambda>x. (x - mu)\<^sup>2) xs) / n))"

definition sample_std :: "real list \<Rightarrow> real" where
  "sample_std xs =
     (let n = real (length xs); mu = sum_list xs / n
      in sqrt (sum_list (map (\<lambda>x. (x - mu)\<^sup>2) xs) / (n - 1)))"

text \<open>
  The main verb of a sentence, in the words of the metric's description: the root of the
  dependency tree when its tag is a verb tag, at the root's position less one; otherwise the
  first tagged word that is a verb and does not end in one of the suffixes of the
  participle, the gerund and the infinitive; 0 when there is none.
\<close>

definition ends_in :: "string \<Rightarrow> string \<Rightarrow> bool" where
  "ends_in s suf = suffix suf s"

definition finite_verb :: "(tagged_word \<Rightarrow> bool) \<Rightarrow> tagged_word \<Rightarrow> bool" where
  "finite_verb is_verb token \<longleftrightarrow>
     is_verb token \<and> \<not> (\<exists>suf \<in> {''do'', ''ar'', ''er'', ''ir''}. ends_in (fst token) suf)"

definition main_verb_index ::
  "(tagged_word \<Rightarrow> bool) \<Rightarrow> (tagged_word \<Rightarrow> bool) \<Rightarrow> dep_tree \<times> tagged_word list \<Rightarrow> int" where
  "main_verb_index dep_is_verb is_verb = (\<lambda>(tree, tagged_sent).
     (let root_position = length (takeWhile (\<lambda>node. rel node \<noteq> ''ROOT'') tree)
      in if dep_is_verb ([], tag (tree ! root_position)) then int root_position - 1
         else if \<exists>token \<in> set tagged_sent. finite_verb is_verb token
           then int (length (takeWhile (\<lambda>token. \<not> finite_verb is_verb token) tagged_sent))
           else 0))"

text \<open>
  Two requests in a row for the same resource of the same text: the two results and the pool
  afterwards.
\<close>

definition request_twice ::
  "('t \<Rightarrow> resource_kind \<Rightarrow> 'r option) \<Rightarrow> ('t, 'r) resource_pool \<Rightarrow> 't \<Rightarrow> resource_kind
     \<Rightarrow> ('t pool_error + 'r) \<times> ('t pool_error + 'r) \<times> ('t, 'r) resource_pool" where
  "request_twice tool p text kind =
     (let (v1, p1) = get_or_compute tool p text kind;
          (v2, p2) = get_or_compute tool p1 text kind
      in (v1, v2, p2))"

text \<open>
  The state of one pair in a pool whose tool answers \<open>r\<close> for it: not asked for yet, or
  computed once and cached.
\<close>

definition pair_served ::
  "('t, 'r) resource_pool \<Rightarrow> 't \<Rightarrow> resource_kind \<Rightarrow> 'r \<Rightarrow> bool" where
  "pair_served p text kind r \<longleftrightarrow>
     (cache p (text, kind) = None \<and> invocations p (text, kind) = 0)
   \<or> (cache p (text, kind) = Some r \<and> invocations p (text, kind) = 1)"

subsection \<open>Example inputs\<close>

text \<open>
  Tagset predicates for the examples: punctuation carries the tag \<^verbatim>\<open>PU\<close>, a verb the tag
  \<^verbatim>\<open>V\<close>, and a verb of the dependency parser's tagset the tag \<^verbatim>\<open>VERB\<close>.
\<close>

definition example_is_punctuation :: "tagged_word \<Rightarrow> bool" where
  "example_is_punctuation word \<longleftrightarrow> snd word = ''PU''"

definition example_is_verb :: "tagged_word \<Rightarrow> bool" where
  "example_is_verb word \<longleftrightarrow> snd word = ''V''"

definition example_dep_is_verb :: "tagged_word \<Rightarrow> bool" where
  "example_dep_is_verb word \<longleftrightarrow> snd word = ''VERB''"

text \<open>A tool that answers every request, and one that fails on every request.\<close>

definition length_tool :: "string \<Rightarrow> resource_kind \<Rightarrow> nat option" where
  "length_tool text kind = Some (length text)"

definition failing_tool :: "string \<Rightarrow> resource_kind \<Rightarrow> nat option" where
  "failing_tool text kind = None"

section \<open>Properties\<close>

subsection \<open>The numpy reductions on lists of numbers\<close>

lemma np_sum_Num: "np_sum (map (Num \<circ> f) xs) = Num (sum_list (map f xs))"
  by (induction xs) simp_all

lemma np_mean_Num:
  "xs \<noteq> [] \<Longrightarrow> np_mean (map (Num \<circ> f) xs) = Num (arithmetic_mean (map f xs))"
  by (simp add: np_mean_def np_sum_Num arithmetic_mean_def)

lemma np_mean_array:
  "xs \<noteq> [] \<Longrightarrow>
   np_mean (np_array (map f xs)) = Num (arithmetic_mean (map (\<lambda>x. real (f x)) xs))"
  using np_mean_Num [of xs "\<lambda>x. real (f x)"] by (simp add: np_array_def comp_def)

lemma np_std_array:
  assumes "xs \<noteq> []"
  shows "np_std (np_array xs) = Num (population_std (map real xs))"
proof -
  have a: "np_array xs = map (Num \<circ> real) xs" by (simp add: np_array_def comp_def)
  have m: "np_mean (np_array xs) = Num (sum_list (map real xs) / real (length xs))"
    using assms np_mean_Num [of xs real] by (simp add: a arithmetic_mean_def)
  have d: "map (\<lambda>x. case x of NaN \<Rightarrow> NaN | Num v \<Rightarrow> Num ((abs (v - mu))\<^sup>2)) (np_array xs)
      = map (Num \<circ> (\<lambda>x. (real x - mu)\<^sup>2)) xs" for mu
    by (simp add: a)
  show ?thesis
    unfolding np_std_def m d
    using assms np_mean_Num [of xs "\<lambda>x. (real x - mu)\<^sup>2" for mu]
    by (simp add: population_std_def Let_def arithmetic_mean_def comp_def)
qed

subsection \<open>Maximum and minimum of an empty text\<close>

text \<open>
  C4. When the flattened list of top-level noun-phrase sizes of a text is empty,
  \<^verbatim>\<open>MaxNounPhrase.value_for_text\<close> and \<^verbatim>\<open>MinNounPhrase.value_for_text\<close> raise an error
  (\<^verbatim>\<open>ValueError\<close>, from \<^verbatim>\<open>max\<close> and \<^verbatim>\<open>min\<close>); neither returns a number.
\<close>

theorem max_min_empty_raise:
  assumes "np_sizes all_leaves = []"
  shows "MaxNounPhrase_value_for_text all_leaves = Inl ValueError
       \<and> MinNounPhrase_value_for_text all_leaves = Inl ValueError
       \<and> (\<forall>v. MaxNounPhrase_value_for_text all_leaves \<noteq> Inr v)
       \<and> (\<forall>v. MinNounPhrase_value_for_text all_leaves \<noteq> Inr v)"
  using assms
  by (simp add: MaxNounPhrase_value_for_text_def MinNounPhrase_value_for_text_def
      py_max_def py_min_def)

text \<open>A text of two sentences without noun phrases.\<close>

theorem max_min_empty_raise_witness:
  "np_sizes ([[], []] :: string list list list) = []
   \<and> MaxNounPhrase_value_for_text ([[], []] :: string list list list) = Inl ValueError
   \<and> MinNounPhrase_value_for_text ([[], []] :: string list list list) = Inl ValueError"
proof -
  have h: "np_sizes ([[], []] :: string list list list) = []"
    by (simp add: np_sizes_def)
  show ?thesis
    using h max_min_empty_raise [OF h] by simp
qed

subsection \<open>Maximum, minimum and standard deviation over the whole text\<close>

text \<open>
  The comprehension flattens the noun phrases of all sentences and takes their sizes;
  the scans of \<^verbatim>\<open>max\<close> and \<^verbatim>\<open>min\<close> over a list that is not empty return its greatest and
  its least item.
\<close>

lemma np_sizes_concat: "np_sizes all_leaves = map length (concat all_leaves)"
  by (simp add: np_sizes_def map_concat)

lemma py_max_Max: "xs \<noteq> [] \<Longrightarrow> py_max xs = Inr (Max (set xs))"
proof (cases xs)
  case Nil
  assume "xs \<noteq> []"
  with Nil show ?thesis by simp
next
  case (Cons x ys)
  have "(\<lambda>item m. if item > m then item else m) = (max :: nat \<Rightarrow> nat \<Rightarrow> nat)"
    by (auto simp: fun_eq_iff max_def)
  then show ?thesis
    by (simp add: py_max_def Cons Max.set_eq_fold del: set_simps)
qed

lemma py_min_Min: "xs \<noteq> [] \<Longrightarrow> py_min xs = Inr (Min (set xs))"
proof (cases xs)
  case Nil
  assume "xs \<noteq> []"
  with Nil show ?thesis by simp
next
  case (Cons x ys)
  have "(\<lambda>item m. if item < m then item else m) = (min :: nat \<Rightarrow> nat \<Rightarrow> nat)"
    by (auto simp: fun_eq_iff min_def)
  then show ?thesis
    by (simp add: py_min_def Cons Min.set_eq_fold del: set_simps)
qed

text \<open>
  C7. \<^verbatim>\<open>MaxNounPhrase\<close>, \<^verbatim>\<open>MinNounPhrase\<close> and \<^verbatim>\<open>StdNounPhrase\<close> work on the one list of the
  sizes of the top-level noun phrases of all sentences of the text: for every text with a
  noun phrase they return the greatest size, the least size and the standard deviation of
  the population of the sizes. In particular, whenever that list is [1, 3, 2], however the
  noun phrases are spread over the sentences, the maximum is 3, the minimum is 1 and the
  standard deviation is that of the population [1, 3, 2], not that of the sample.
\<close>

theorem flattened_max_min_std:
  "np_sizes all_leaves = map length (concat all_leaves)
   \<and> (concat all_leaves \<noteq> [] \<longrightarrow>
        MaxNounPhrase_value_for_text all_leaves
          = Inr (Max (set (map length (concat all_leaves))))
      \<and> MinNounPhrase_value_for_text all_leaves
          = Inr (Min (set (map length (concat all_leaves))))
      \<and> StdNounPhrase_value_for_text all_leaves
          = Inr (Num (population_std (map real (map length (concat all_leaves))))))
   \<and> (np_sizes all_leaves = [1, 3, 2] \<longrightarrow>
        MaxNounPhrase_value_for_text all_leaves = Inr 3
      \<and> MinNounPhrase_value_for_text all_leaves = Inr 1
      \<and> StdNounPhrase_value_for_text all_leaves = Inr (Num (population_std [1, 3, 2]))
      \<and> StdNounPhrase_value_for_text all_leaves \<noteq> Inr (Num (sample_std [1, 3, 2])))"
proof (intro conjI impI)
  show "np_sizes all_leaves = map length (concat all_leaves)" by (rule np_sizes_concat)
next
  assume ne: "concat all_leaves \<noteq> []"
  then have n: "map length (concat all_leaves) \<noteq> []" by simp
  show "MaxNounPhrase_value_for_text all_leaves
          = Inr (Max (set (map length (concat all_leaves))))"
    unfolding MaxNounPhrase_value_for_text_def np_sizes_concat using n by (rule py_max_Max)
  show "MinNounPhrase_value_for_text all_leaves
          = Inr (Min (set (map length (concat all_leaves))))"
    unfolding MinNounPhrase_value_for_text_def np_sizes_concat using n by (rule py_min_Min)
  show "StdNounPhrase_value_for_text all_leaves
          = Inr (Num (population_std (map real (map length (concat all_leaves)))))"
    unfolding StdNounPhrase_value_for_text_def np_sizes_concat
    using np_std_array [OF n] by (simp only:)
next
  assume h: "np_sizes all_leaves = [1, 3, 2]"
  show "MaxNounPhrase_value_for_text all_leaves = Inr 3"
    by (simp add: MaxNounPhrase_value_for_text_def h py_max_def)
  show "MinNounPhrase_value_for_text all_leaves = Inr 1"
    by (simp add: MinNounPhrase_value_for_text_def h py_min_def)
  show "StdNounPhrase_value_for_text all_leaves = Inr (Num (population_std [1, 3, 2]))"
    by (simp add: StdNounPhrase_value_for_text_def h np_std_array)
  show "StdNounPhrase_value_for_text all_leaves \<noteq> Inr (Num (sample_std [1, 3, 2]))"
    by (simp add: StdNounPhrase_value_for_text_def h np_std_array population_std_def
        sample_std_def Let_def)
qed

text \<open>Two sentences: noun phrases of one and three leaves, then one of two leaves.\<close>

theorem flattened_max_min_std_witness:
  "np_sizes [[[''ele''], [''o'', ''gato'', ''preto'']], [[''a'', ''casa'']]] = [1, 3, 2]
   \<and> concat [[[''ele''], [''o'', ''gato'', ''preto'']], [[''a'', ''casa'']]] \<noteq> []
   \<and> MaxNounPhrase_value_for_text
        [[[''ele''], [''o'', ''gato'', ''preto'']], [[''a'', ''casa'']]] = Inr 3
   \<and> MinNounPhrase_value_for_text
        [[[''ele''], [''o'', ''gato'', ''preto'']], [[''a'', ''casa'']]] = Inr 1
   \<and> StdNounPhrase_value_for_text
        [[[''ele''], [''o'', ''gato'', ''preto'']], [[''a'', ''casa'']]]
      = Inr (Num (population_std [1, 3, 2]))
   \<and> StdNounPhrase_value_for_text
        [[[''ele''], [''o'', ''gato'', ''preto'']], [[''a'', ''casa'']]]
      = Inr (Num (population_std (map real (map length
          (concat [[[''ele''], [''o'', ''gato'', ''preto'']], [[''a'', ''casa'']]])))))"
proof -
  have h: "np_sizes [[[''ele''], [''o'', ''gato'', ''preto'']], [[''a'', ''casa'']]] = [1, 3, 2]"
    by (simp add: np_sizes_def)
  have c: "concat [[[''ele''], [''o'', ''gato'', ''preto'']], [[''a'', ''casa'']]] \<noteq> []"
    by simp
  show ?thesis
    using h c
      flattened_max_min_std [of "[[[''ele''], [''o'', ''gato'', ''preto'']], [[''a'', ''casa'']]]"]
    by blast
qed

lemma population_std_example:
  "population_std [1, 3, 2] = sqrt (2 / 3) \<and> sample_std [1, 3, 2] = 1"
  by (simp add: population_std_def sample_std_def Let_def)

subsection \<open>Mean noun phrase size\<close>

text \<open>
  C6. For a text without sentences \<^verbatim>\<open>MeanNounPhrase.value_for_text\<close> returns NaN, the mean
  of an empty list: it does not return 0, and it does not raise an error.
\<close>

theorem mean_noun_phrase_no_sentences:
  "MeanNounPhrase_value_for_text [] = Inr NaN
   \<and> MeanNounPhrase_value_for_text [] \<noteq> Inr (Num 0)
   \<and> (\<forall>e. MeanNounPhrase_value_for_text [] \<noteq> Inl e)"
  by (simp add: MeanNounPhrase_value_for_text_def np_mean_def)

text \<open>
  C5. When every sentence of a text has at least one top-level noun phrase,
  \<^verbatim>\<open>MeanNounPhrase.value_for_text\<close> is the mean, over the sentences, of the mean size of the
  top-level noun phrases of the sentence (and NaN, the mean of nothing, when the text has no
  sentence).
\<close>

theorem mean_of_sentence_means:
  assumes "\<forall>sent \<in> set all_leaves. sent \<noteq> []"
  shows "MeanNounPhrase_value_for_text all_leaves =
     Inr (if all_leaves = [] then NaN
          else Num (arithmetic_mean
                 (map (\<lambda>sent. arithmetic_mean (map (\<lambda>toplevel. real (length toplevel)) sent))
                    all_leaves)))"
proof (cases "all_leaves = []")
  case True
  then show ?thesis by (simp add: MeanNounPhrase_value_for_text_def np_mean_def)
next
  case False
  have h: "map (\<lambda>sent. np_mean (np_array (map length sent))) all_leaves
      = map (Num \<circ> (\<lambda>sent. arithmetic_mean (map (\<lambda>toplevel. real (length toplevel)) sent)))
          all_leaves"
    using assms by (simp add: np_mean_array)
  show ?thesis
    unfolding MeanNounPhrase_value_for_text_def Let_def h
    using False by (simp add: np_mean_Num)
qed

text \<open>
  One noun phrase of one leaf, then two of three leaves: the sentence means are 1 and 3 and
  the value is 2, where the mean of the three sizes would be 7/3.
\<close>

theorem mean_of_sentence_means_witness:
  "MeanNounPhrase_value_for_text
        [[[''ele'']], [[''o'', ''gato'', ''preto''], [''a'', ''casa'', ''azul'']]] = Inr (Num 2)
   \<and> arithmetic_mean (map real
        (np_sizes [[[''ele'']], [[''o'', ''gato'', ''preto''], [''a'', ''casa'', ''azul'']]]))
      = 7 / 3"
  using mean_of_sentence_means
    [of "[[[''ele'']], [[''o'', ''gato'', ''preto''], [''a'', ''casa'', ''azul'']]]"]
  by (simp add: arithmetic_mean_def np_sizes_def)

subsection \<open>Noun phrase incidence\<close>

lemma length_find_subtrees:
  "length (find_subtrees tree lab) = count_constituents lab tree"
proof (induction tree)
  case (Leaf w)
  then show ?case by (simp add: find_subtrees_def)
next
  case (Tree l cs)
  have "length (filter (\<lambda>s. label s = lab) (concat (map subtrees cs)))
      = sum_list (map (count_constituents lab) cs)"
    using Tree
  proof (induction cs)
    case Nil
    then show ?case by simp
  next
    case (Cons c cs)
    then show ?case by (simp add: find_subtrees_def)
  qed
  then show ?case by (simp add: find_subtrees_def)
qed

text \<open>
  The loop pairs the \<open>i\<close>-th parse tree with the \<open>i\<close>-th tagged sentence; when each sentence
  it meets has a word, it appends the scores of the pairs in order.
\<close>

lemma sent_indices_zip:
  assumes "length trees \<le> length (drop i tagged_sents)"
    and "\<forall>(tree, sent) \<in> set (zip trees (drop i tagged_sents)).
           0 < word_count is_punctuation sent"
  shows "NounPhraseIncidence_sent_indices is_punctuation tagged_sents i trees acc
       = Inr (acc @ map (incidence is_punctuation) (zip trees (drop i tagged_sents)))"
  using assms
proof (induction trees arbitrary: i acc)
  case Nil
  then show ?case by simp
next
  case (Cons tree rest)
  from Cons.prems(1) have i: "i < length tagged_sents" by simp
  then have d: "drop i tagged_sents = tagged_sents ! i # drop (Suc i) tagged_sents"
    by (simp add: Cons_nth_drop_Suc)
  from Cons.prems(2) have w: "0 < word_count is_punctuation (tagged_sents ! i)"
    by (simp add: d)
  have l: "length rest \<le> length (drop (Suc i) tagged_sents)"
    using Cons.prems(1) by simp
  have r: "\<forall>(tree, sent) \<in> set (zip rest (drop (Suc i) tagged_sents)).
             0 < word_count is_punctuation sent"
    using Cons.prems(2) by (simp add: d)
  show ?case
    using i w Cons.IH [OF l r]
    by (simp add: d [symmetric] Let_def length_find_subtrees incidence_def)
       (simp add: d word_count_def incidence_def)
qed

lemma value_for_text_zip:
  assumes "parse_trees \<noteq> []"
    and "length parse_trees \<le> length tagged_sents"
    and "\<forall>(tree, sent) \<in> set (zip parse_trees tagged_sents).
           0 < word_count is_punctuation sent"
  shows "NounPhraseIncidence_value_for_text is_punctuation parse_trees tagged_sents
       = Inr (arithmetic_mean (map (incidence is_punctuation) (zip parse_trees tagged_sents)))"
  using assms sent_indices_zip [of parse_trees 0 tagged_sents is_punctuation "[]"]
  by (simp add: NounPhraseIncidence_value_for_text_def arithmetic_mean_def)

text \<open>
  C1, as amended. For a text with at least one sentence, where every sentence has a tagged
  sentence and at least one token that is not punctuation,
  \<^verbatim>\<open>NounPhraseIncidence.value_for_text\<close> returns the arithmetic mean, over the sentences,
  of the number of constituents labelled NP over a thousandth of the number of tokens that
  are not punctuation (in exact arithmetic).
\<close>

theorem noun_phrase_incidence_mean:
  assumes "parse_trees \<noteq> []"
    and "length parse_trees \<le> length tagged_sents"
    and "\<forall>(tree, sent) \<in> set (zip parse_trees tagged_sents).
           0 < word_count is_punctuation sent"
  shows "NounPhraseIncidence_value_for_text is_punctuation parse_trees tagged_sents
       = Inr (arithmetic_mean (map (incidence is_punctuation) (zip parse_trees tagged_sents)))
       \<and> length (zip parse_trees tagged_sents) = length parse_trees"
  using value_for_text_zip [OF assms] assms(2) by simp

text \<open>
  Two sentences: two noun phrases in five words, then one noun phrase in two words; the
  scores are 400 and 500.
\<close>

theorem noun_phrase_incidence_mean_witness:
  "[Tree ''S'' [Tree ''NP'' [Leaf ''o'', Leaf ''gato''],
                Tree ''VP'' [Leaf ''come'', Tree ''NP'' [Leaf ''o'', Leaf ''rato'']],
                Leaf ''.''],
    Tree ''S'' [Tree ''NP'' [Leaf ''ele''], Tree ''VP'' [Leaf ''dorme''], Leaf ''.'']] \<noteq> []
   \<and> map (word_count example_is_punctuation)
         [[(''o'', ''ART''), (''gato'', ''N''), (''come'', ''V''), (''o'', ''ART''),
           (''rato'', ''N''), (''.'', ''PU'')],
          [(''ele'', ''PROPESS''), (''dorme'', ''V''), (''.'', ''PU'')]] = [5, 2]
   \<and> NounPhraseIncidence_value_for_text example_is_punctuation
        [Tree ''S'' [Tree ''NP'' [Leaf ''o'', Leaf ''gato''],
                Tree ''VP'' [Leaf ''come'', Tree ''NP'' [Leaf ''o'', Leaf ''rato'']],
                Leaf ''.''],
         Tree ''S'' [Tree ''NP'' [Leaf ''ele''], Tree ''VP'' [Leaf ''dorme''], Leaf ''.'']]
        [[(''o'', ''ART''), (''gato'', ''N''), (''come'', ''V''), (''o'', ''ART''),
          (''rato'', ''N''), (''.'', ''PU'')],
         [(''ele'', ''PROPESS''), (''dorme'', ''V''), (''.'', ''PU'')]]
      = Inr 450"
  using noun_phrase_incidence_mean [of
      "[Tree ''S'' [Tree ''NP'' [Leaf ''o'', Leaf ''gato''],
                Tree ''VP'' [Leaf ''come'', Tree ''NP'' [Leaf ''o'', Leaf ''rato'']],
                Leaf ''.''],
        Tree ''S'' [Tree ''NP'' [Leaf ''ele''], Tree ''VP'' [Leaf ''dorme''], Leaf ''.'']]"
      "[[(''o'', ''ART''), (''gato'', ''N''), (''come'', ''V''), (''o'', ''ART''),
         (''rato'', ''N''), (''.'', ''PU'')],
        [(''ele'', ''PROPESS''), (''dorme'', ''V''), (''.'', ''PU'')]]"
      example_is_punctuation]
  by (simp add: word_count_def example_is_punctuation_def incidence_def arithmetic_mean_def)

text \<open>
  The claim as it stands, for every text with at least one sentence, fails on a sentence
  that is punctuation only: the division raises \<^verbatim>\<open>ZeroDivisionError\<close>.
\<close>

theorem punctuation_sentence_raises:
  "NounPhraseIncidence_value_for_text example_is_punctuation
     [Tree ''S'' [Leaf ''...'']] [[(''...'', ''PU'')]]
   = Inl ZeroDivisionError"
  by (simp add: NounPhraseIncidence_value_for_text_def find_subtrees_def
      example_is_punctuation_def)

subsection \<open>Texts without sentences\<close>

text \<open>
  C3. For a text without sentences (no parse tree, no dependency tree)
  \<^verbatim>\<open>NounPhraseIncidence.value_for_text\<close> and \<^verbatim>\<open>WordsBeforeMainVerb.value_for_text\<close> return
  0 and raise no error.
\<close>

theorem zero_sentences_return_zero:
  "NounPhraseIncidence_value_for_text is_punctuation [] tagged_sents = Inr 0
   \<and> WordsBeforeMainVerb_value_for_text dep_is_verb is_verb [] words = Inr 0"
  by (simp add: NounPhraseIncidence_value_for_text_def WordsBeforeMainVerb_value_for_text_def)

subsection \<open>Words before the main verb\<close>

lemma last_two_suffix:
  assumes "length suf = 2"
  shows "last_two s = suf \<longleftrightarrow> suffix suf s"
proof
  assume "last_two s = suf"
  then have "s = take (length s - 2) s @ suf"
    using append_take_drop_id [of "length s - 2" s] by (simp add: last_two_def)
  then show "suffix suf s" by (rule suffixI)
next
  assume "suffix suf s"
  then obtain zs where "s = zs @ suf" by (auto simp: suffix_def)
  then show "last_two s = suf" using assms by (simp add: last_two_def)
qed

lemma finite_verb_code:
  "(is_verb token \<and> last_two (fst token) \<notin> set [''do'', ''ar'', ''er'', ''ir''])
     \<longleftrightarrow> finite_verb is_verb token"
proof -
  have "last_two s \<in> set [''do'', ''ar'', ''er'', ''ir'']
     \<longleftrightarrow> (\<exists>suf \<in> {''do'', ''ar'', ''er'', ''ir''}. suffix suf s)" for s
    using last_two_suffix [of "''do''" s] last_two_suffix [of "''ar''" s]
      last_two_suffix [of "''er''" s] last_two_suffix [of "''ir''" s]
    by auto
  then show ?thesis by (simp add: finite_verb_def ends_in_def)
qed

lemma first_finite_verb_Cons:
  "first_finite_verb is_verb i (token # rest) d =
     (if finite_verb is_verb token then int i else first_finite_verb is_verb (Suc i) rest d)"
  by (simp only: first_finite_verb.simps finite_verb_code)

lemma first_finite_verb_found:
  "\<exists>token \<in> set sent. finite_verb is_verb token \<Longrightarrow>
   first_finite_verb is_verb i sent d
     = int (i + length (takeWhile (\<lambda>token. \<not> finite_verb is_verb token) sent))"
proof (induction sent arbitrary: i)
  case Nil
  then show ?case by simp
next
  case (Cons token rest)
  show ?case
  proof (cases "finite_verb is_verb token")
    case True
    then show ?thesis by (simp only: first_finite_verb_Cons) simp
  next
    case False
    with Cons.prems have "\<exists>token \<in> set rest. finite_verb is_verb token" by simp
    from Cons.IH [OF this, of "Suc i"] False show ?thesis
      by (simp only: first_finite_verb_Cons) simp
  qed
qed

lemma first_finite_verb_none:
  "\<not> (\<exists>token \<in> set sent. finite_verb is_verb token) \<Longrightarrow>
   first_finite_verb is_verb i sent d = d"
  by (induction sent arbitrary: i)
     (auto simp add: first_finite_verb_Cons simp del: first_finite_verb.simps(2))

lemma py_index_from_found:
  "v \<in> set xs \<Longrightarrow> py_index_from i xs v = Inr (i + length (takeWhile (\<lambda>x. x \<noteq> v) xs))"
  by (induction xs arbitrary: i) auto

lemma sent_score_root:
  assumes "\<exists>node \<in> set tree. rel node = ''ROOT''"
  shows "WordsBeforeMainVerb_sent_score dep_is_verb is_verb tree tagged_sent
       = Inr (main_verb_index dep_is_verb is_verb (tree, tagged_sent))"
proof -
  have "''ROOT'' \<in> set (map rel tree)" using assms by force
  then have "py_index (map rel tree) ''ROOT''
      = Inr (length (takeWhile (\<lambda>x. x \<noteq> ''ROOT'') (map rel tree)))"
    by (simp add: py_index_def py_index_from_found)
  also have "takeWhile (\<lambda>x. x \<noteq> ''ROOT'') (map rel tree)
      = map rel (takeWhile (\<lambda>node. rel node \<noteq> ''ROOT'') tree)"
    by (simp add: takeWhile_map comp_def)
  finally have idx: "py_index (map rel tree) ''ROOT''
      = Inr (length (takeWhile (\<lambda>node. rel node \<noteq> ''ROOT'') tree))"
    by simp
  show ?thesis
  proof (cases "\<exists>token \<in> set tagged_sent. finite_verb is_verb token")
    case True
    then show ?thesis
      using first_finite_verb_found [OF True, of 0 0]
      by (simp add: WordsBeforeMainVerb_sent_score_def idx main_verb_index_def Let_def)
  next
    case False
    then show ?thesis
      using first_finite_verb_none [OF False, of 0 0]
      by (simp add: WordsBeforeMainVerb_sent_score_def idx main_verb_index_def Let_def)
  qed
qed

lemma sent_scores_map:
  assumes "\<forall>(tree, tagged_sent) \<in> set sents. \<exists>node \<in> set tree. rel node = ''ROOT''"
  shows "WordsBeforeMainVerb_sent_scores dep_is_verb is_verb sents acc
       = Inr (acc @ map (main_verb_index dep_is_verb is_verb) sents)"
  using assms
proof (induction sents arbitrary: acc)
  case Nil
  then show ?case by simp
next
  case (Cons s sents)
  obtain tree tagged_sent where s: "s = (tree, tagged_sent)" by (cases s)
  from Cons.prems have root: "\<exists>node \<in> set tree. rel node = ''ROOT''"
    and rest: "\<forall>(tree, tagged_sent) \<in> set sents. \<exists>node \<in> set tree. rel node = ''ROOT''"
    by (simp_all add: s)
  show ?case
    using Cons.IH [OF rest] by (simp add: s sent_score_root [OF root])
qed

text \<open>
  C2. The score of a sentence is the position of the ROOT node of its dependency tree less
  one, when the tag of that node is a verb tag; otherwise the index of the first tagged word
  that is a verb and does not end in "do", "ar", "er" or "ir", and 0 when there is no such
  word. The value of the metric is the mean of the scores of the sentences (0 when there is
  none). A dependency tree has a ROOT node; were there several, the first one counts.
\<close>

theorem words_before_main_verb_mean:
  assumes "\<forall>(tree, tagged_sent) \<in> set (zip trees words). \<exists>node \<in> set tree. rel node = ''ROOT''"
  shows "WordsBeforeMainVerb_value_for_text dep_is_verb is_verb trees words =
     Inr (if zip trees words = [] then 0
          else real_of_int (sum_list (map (main_verb_index dep_is_verb is_verb) (zip trees words)))
               / real (length (zip trees words)))"
  using sent_scores_map [OF assms, of dep_is_verb is_verb "[]"]
  by (simp add: WordsBeforeMainVerb_value_for_text_def)

text \<open>
  Two sentences. In the first the root is the verb "come", at position 3 behind the top
  node: the score is 2. In the second the root is an adjective, and the first verb that is
  not an infinitive ("acha", after "comer") has index 2.
\<close>

theorem words_before_main_verb_mean_witness:
  "map (map rel)
       [[\<lparr>rel = ''TOP'', tag = ''TOP''\<rparr>, \<lparr>rel = ''det'', tag = ''DET''\<rparr>,
         \<lparr>rel = ''nsubj'', tag = ''NOUN''\<rparr>, \<lparr>rel = ''ROOT'', tag = ''VERB''\<rparr>,
         \<lparr>rel = ''obj'', tag = ''NOUN''\<rparr>],
        [\<lparr>rel = ''TOP'', tag = ''TOP''\<rparr>, \<lparr>rel = ''csubj'', tag = ''VERB''\<rparr>,
         \<lparr>rel = ''cop'', tag = ''AUX''\<rparr>, \<lparr>rel = ''xcomp'', tag = ''VERB''\<rparr>,
         \<lparr>rel = ''ROOT'', tag = ''ADJ''\<rparr>]]
     = [[''TOP'', ''det'', ''nsubj'', ''ROOT'', ''obj''],
        [''TOP'', ''csubj'', ''cop'', ''xcomp'', ''ROOT'']]
   \<and> WordsBeforeMainVerb_value_for_text example_dep_is_verb example_is_verb
       [[\<lparr>rel = ''TOP'', tag = ''TOP''\<rparr>, \<lparr>rel = ''det'', tag = ''DET''\<rparr>,
         \<lparr>rel = ''nsubj'', tag = ''NOUN''\<rparr>, \<lparr>rel = ''ROOT'', tag = ''VERB''\<rparr>,
         \<lparr>rel = ''obj'', tag = ''NOUN''\<rparr>],
        [\<lparr>rel = ''TOP'', tag = ''TOP''\<rparr>, \<lparr>rel = ''csubj'', tag = ''VERB''\<rparr>,
         \<lparr>rel = ''cop'', tag = ''AUX''\<rparr>, \<lparr>rel = ''xcomp'', tag = ''VERB''\<rparr>,
         \<lparr>rel = ''ROOT'', tag = ''ADJ''\<rparr>]]
       [[(''o'', ''ART''), (''gato'', ''N''), (''come'', ''V''), (''peixe'', ''N'')],
        [(''comer'', ''V''), (''ele'', ''PROPESS''), (''acha'', ''V''), (''bom'', ''ADJ'')]]
     = Inr 2"
  using words_before_main_verb_mean [of
      "[[\<lparr>rel = ''TOP'', tag = ''TOP''\<rparr>, \<lparr>rel = ''det'', tag = ''DET''\<rparr>,
         \<lparr>rel = ''nsubj'', tag = ''NOUN''\<rparr>, \<lparr>rel = ''ROOT'', tag = ''VERB''\<rparr>,
         \<lparr>rel = ''obj'', tag = ''NOUN''\<rparr>],
        [\<lparr>rel = ''TOP'', tag = ''TOP''\<rparr>, \<lparr>rel = ''csubj'', tag = ''VERB''\<rparr>,
         \<lparr>rel = ''cop'', tag = ''AUX''\<rparr>, \<lparr>rel = ''xcomp'', tag = ''VERB''\<rparr>,
         \<lparr>rel = ''ROOT'', tag = ''ADJ''\<rparr>]]"
      "[[(''o'', ''ART''), (''gato'', ''N''), (''come'', ''V''), (''peixe'', ''N'')],
        [(''comer'', ''V''), (''ele'', ''PROPESS''), (''acha'', ''V''), (''bom'', ''ADJ'')]]"
      example_dep_is_verb example_is_verb]
  by (simp add: main_verb_index_def finite_verb_def ends_in_def example_dep_is_verb_def
      example_is_verb_def Let_def suffix_def)

subsection \<open>The order of the metrics of the category\<close>

text \<open>
  C9. After \<^verbatim>\<open>Constituents.__init__\<close> the metrics of the category are in ascending order
  of their display names, compared as plain strings, whatever the order in which
  the metrics were found in the module; they are the metrics that were found.
\<close>

theorem constituents_metrics_sorted:
  "sorted (map name (metrics (Constituents_init discovered)))
   \<and> mset (metrics (Constituents_init discovered)) = mset discovered"
  by (simp add: Constituents_init_def)

lemma constituents_names_order_independent:
  assumes "mset discovered = mset discovered'"
  shows "map name (metrics (Constituents_init discovered))
       = map name (metrics (Constituents_init discovered'))"
proof -
  have "map name (sort_key name xs) = sort (map name xs)" for xs :: "metric list"
    by (rule sym, rule properties_for_sort) simp_all
  moreover have "sort (map name discovered) = sort (map name discovered')"
    using assms by (metis mset_map properties_for_sort mset_sort sorted_sort)
  ultimately show ?thesis by (simp add: Constituents_init_def)
qed

text \<open>The six metrics of the module, in any order, come out in this order.\<close>

lemma constituents_module_order:
  assumes "mset discovered = mset [NounPhraseIncidence, MeanNounPhrase, MaxNounPhrase,
             MinNounPhrase, StdNounPhrase, WordsBeforeMainVerb]"
  shows "map name (metrics (Constituents_init discovered))
       = [''Maximum Noun Phrase'', ''Mean Noun Phrase'', ''Minimum Noun Phrase'',
          ''Noun Phrase Incidence'', ''Std Noun Phrase'', ''Words before Main Verb'']"
  unfolding constituents_names_order_independent [OF assms]
  by (simp add: Constituents_init_def NounPhraseIncidence_def MeanNounPhrase_def
      MaxNounPhrase_def MinNounPhrase_def StdNounPhrase_def WordsBeforeMainVerb_def
      less_eq_char_def less_char_def)

subsection \<open>The resource pool\<close>

lemma pair_served_step:
  assumes "tool text kind = Some r" and "pair_served p text kind r"
  shows "pair_served (snd (get_or_compute tool p text' kind')) text kind r"
  using assms
  by (cases "(text', kind') = (text, kind)")
     (auto simp: pair_served_def get_or_compute_def Let_def split: option.splits)

lemma pair_served_serve:
  assumes "tool text kind = Some r" and "pair_served p text kind r"
  shows "pair_served (serve tool p reqs) text kind r"
  using assms(2)
proof (induction reqs arbitrary: p)
  case Nil
  then show ?case by simp
next
  case (Cons req reqs)
  obtain text' kind' where req: "req = (text', kind')" by (cases req)
  have "pair_served (snd (get_or_compute tool p text' kind')) text kind r"
    using assms(1) Cons.prems by (rule pair_served_step)
  then show ?case
    using Cons.IH by (simp add: req)
qed

lemma pair_served_twice:
  assumes "tool text kind = Some r" and "pair_served p text kind r"
  shows "request_twice tool p text kind = (Inr r, Inr r, snd (snd (request_twice tool p text kind)))
       \<and> invocations (snd (snd (request_twice tool p text kind))) (text, kind) = 1"
  using assms
  by (auto simp: request_twice_def pair_served_def get_or_compute_def Let_def split: option.splits)

text \<open>
  C10, as amended. In a pool that has served any sequence of requests since it was empty,
  two requests in a row for a resource that the external tool computes without failure
  return the same value, the tool's, and after them the tool has been invoked exactly once
  for that text and kind since the pool was empty.
\<close>

theorem resource_pool_idempotent:
  assumes "tool text kind = Some r"
  shows "fst (request_twice tool (serve tool empty_pool reqs) text kind) = Inr r
       \<and> fst (snd (request_twice tool (serve tool empty_pool reqs) text kind)) = Inr r
       \<and> invocations (snd (snd (request_twice tool (serve tool empty_pool reqs) text kind)))
            (text, kind) = 1"
proof -
  have "pair_served empty_pool text kind r"
    by (simp add: pair_served_def empty_pool_def)
  with assms have "pair_served (serve tool empty_pool reqs) text kind r"
    by (rule pair_served_serve)
  with assms show ?thesis
    using pair_served_twice [of tool "text" kind r "serve tool empty_pool reqs"]
    by (metis fst_conv snd_conv)
qed

text \<open>After requests for two other resources, the parse trees of a text are asked for twice.\<close>

theorem resource_pool_idempotent_witness:
  "length_tool ''ab'' ParseTrees = Some 2
   \<and> fst (request_twice length_tool
       (serve length_tool empty_pool [(''abc'', ParseTrees), (''ab'', DepTrees)])
       ''ab'' ParseTrees) = Inr 2
   \<and> fst (snd (request_twice length_tool
       (serve length_tool empty_pool [(''abc'', ParseTrees), (''ab'', DepTrees)])
       ''ab'' ParseTrees)) = Inr 2
   \<and> invocations (snd (snd (request_twice length_tool
       (serve length_tool empty_pool [(''abc'', ParseTrees), (''ab'', DepTrees)])
       ''ab'' ParseTrees))) (''ab'', ParseTrees) = 1"
  using resource_pool_idempotent [of length_tool "''ab''" ParseTrees 2
      "[(''abc'', ParseTrees), (''ab'', DepTrees)]"]
  by (simp add: length_tool_def)

text \<open>
  The claim as it stands, for every text and kind, fails when the tool fails: nothing is
  cached, and the second request invokes the tool a second time.
\<close>

theorem failing_tool_invoked_twice:
  "fst (request_twice failing_tool empty_pool ''abc'' ParseTrees)
     = Inl (ToolFailure ParseTrees ''abc'')
   \<and> fst (snd (request_twice failing_tool empty_pool ''abc'' ParseTrees))
     = Inl (ToolFailure ParseTrees ''abc'')
   \<and> invocations (snd (snd (request_twice failing_tool empty_pool ''abc'' ParseTrees)))
        (''abc'', ParseTrees) = 2"
  by (simp add: request_twice_def get_or_compute_def empty_pool_def Let_def failing_tool_def)

subsection \<open>Rounding to binary64\<close>

text \<open>
  Powers of two with integer exponents are ordered as their exponents are.
\<close>

lemma powi_of_int: "0 \<le> k \<Longrightarrow> (2::rat) powi k = of_int (2 ^ nat k)"
  by (simp add: power_int_def)

lemma powi_less_iff: "(2::rat) powi m < 2 powi n \<longleftrightarrow> m < n"
proof
  assume l: "(2::rat) powi m < 2 powi n"
  show "m < n"
  proof (rule ccontr)
    assume "\<not> m < n"
    then have "n \<le> m" by simp
    then have "(2::rat) powi n \<le> 2 powi m" by (rule power_int_increasing) simp
    with l show False by simp
  qed
next
  assume "m < n"
  then show "(2::rat) powi m < 2 powi n" by (rule power_int_strict_increasing) simp
qed

lemma powi_le_iff: "(2::rat) powi m \<le> 2 powi n \<longleftrightarrow> m \<le> n"
  using powi_less_iff [of n m] by (simp add: not_less [symmetric])

text \<open>
  \<open>ilog2\<close> is the exponent: the one integer \<open>e\<close> with \<open>2 powi e \<le> q < 2 powi (e + 1)\<close>.
\<close>

lemma ilog2_bounds:
  assumes "0 < q"
  shows "2 powi (ilog2 q) \<le> q \<and> q < 2 powi (ilog2 q + 1)"
proof -
  obtain a b where ab: "quotient_of q = (a, b)" by (cases "quotient_of q")
  then have b: "0 < b" by (rule quotient_of_denom_pos)
  from ab have q: "q = of_int a / of_int b" by (rule quotient_of_div)
  with assms b have a: "0 < a" by (simp add: zero_less_divide_iff)
  define la lb where "la = bitlen a" and "lb = bitlen b"
  from bitlen_bounds [OF a] have a1: "2 ^ nat (la - 1) \<le> a" and a2: "a < 2 ^ nat la"
    by (simp_all add: la_def)
  from bitlen_bounds [OF b] have b1: "2 ^ nat (lb - 1) \<le> b" and b2: "b < 2 ^ nat lb"
    by (simp_all add: lb_def)
  have la: "1 \<le> la" and lb: "1 \<le> lb"
    using a b by (simp_all add: la_def lb_def bitlen_alt_def)
  have ra1: "(2::rat) powi (la - 1) \<le> of_int a"
    using a1 la by (simp only: powi_of_int of_int_le_iff diff_ge_0_iff_ge)
  have ra2: "of_int a < (2::rat) powi la"
    using a2 la by (simp add: powi_of_int)
  have rb1: "(2::rat) powi (lb - 1) \<le> of_int b"
    using b1 lb by (simp only: powi_of_int of_int_le_iff diff_ge_0_iff_ge)
  have rb2: "of_int b < (2::rat) powi lb"
    using b2 lb by (simp add: powi_of_int)
  have "q < 2 powi la / 2 powi (lb - 1)"
    unfolding q using a ra2 rb1 by (intro frac_less) simp_all
  also have "\<dots> = 2 powi (la - (lb - 1))"
    by (rule power_int_diff [symmetric]) simp
  also have "la - (lb - 1) = la - lb + 1" by simp
  finally have up: "q < 2 powi (la - lb + 1)" .
  have "2 powi (la - 1) / 2 powi lb \<le> q"
    unfolding q using a b ra1 rb2 by (intro frac_le) simp_all
  also have "2 powi (la - 1) / 2 powi lb = (2::rat) powi (la - 1 - lb)"
    by (rule power_int_diff [symmetric]) simp
  also have "la - 1 - lb = la - lb - 1" by simp
  finally have lo: "2 powi (la - lb - 1) \<le> q" .
  show ?thesis
    using up lo ab by (auto simp: ilog2_def Let_def la_def lb_def not_le)
qed

lemma ilog2_unique:
  assumes "2 powi e \<le> q" and "q < 2 powi (e + 1)"
  shows "ilog2 q = e"
proof -
  have "(0::rat) < 2 powi e" by simp
  then have q: "0 < q" using assms(1) by (rule less_le_trans)
  from ilog2_bounds [OF q] have l: "2 powi (ilog2 q) \<le> q" and u: "q < 2 powi (ilog2 q + 1)"
    by simp_all
  from l assms(2) have "(2::rat) powi (ilog2 q) < 2 powi (e + 1)" by simp
  then have 1: "ilog2 q < e + 1" by (simp add: powi_less_iff)
  from assms(1) u have "(2::rat) powi e < 2 powi (ilog2 q + 1)" by simp
  then have 2: "e < ilog2 q + 1" by (simp add: powi_less_iff)
  from 1 2 show ?thesis by simp
qed

lemma round_half_even_of_int: "round_half_even (of_int m) = m"
  by (simp add: round_half_even_def)

lemma round_half_even_ge: "of_int a \<le> y \<Longrightarrow> a \<le> round_half_even y"
proof -
  assume "of_int a \<le> y"
  then have "a \<le> \<lfloor>y\<rfloor>" by (simp add: le_floor_iff)
  then show ?thesis by (simp add: round_half_even_def Let_def)
qed

lemma round_half_even_le: "y \<le> of_int b \<Longrightarrow> round_half_even y \<le> b"
proof -
  assume y: "y \<le> of_int b"
  then have f: "\<lfloor>y\<rfloor> \<le> b" by (simp add: floor_le_iff)
  show ?thesis
  proof (cases "\<lfloor>y\<rfloor> = b")
    case True
    with y have "y = of_int b" using of_int_floor_le [of y] by simp
    then show ?thesis by (simp add: round_half_even_def)
  next
    case False
    with f have "\<lfloor>y\<rfloor> + 1 \<le> b" by simp
    with f show ?thesis by (simp add: round_half_even_def Let_def)
  qed
qed

text \<open>
  Rounding a positive number whose exponent is known.
\<close>

lemma round_binary64_pos:
  assumes "2 powi e \<le> q" and "q < 2 powi (e + 1)"
  shows "round_binary64 q =
     (let ulp = 2 powi (max e (- 1022) - 52);
          x = of_int (round_half_even (q / ulp)) * ulp
      in if 2 powi 1024 \<le> x then PosInf else Finite x)"
proof -
  have "(0::rat) < 2 powi e" by simp
  then have q: "0 < q" using assms(1) by (rule less_le_trans)
  from assms have "ilog2 q = e" by (rule ilog2_unique)
  with q show ?thesis by (simp add: round_binary64_def Let_def)
qed

lemma floor_rat_numeral:
  "\<lfloor>(numeral a / numeral b :: rat)\<rfloor> = numeral a div numeral b"
  using floor_divide_of_int_eq [of "numeral a" "numeral b", where ?'a = rat] by simp

text \<open>
  A positive float is an integer multiple of the spacing at its own exponent, and such a
  multiple below \<open>2 powi 1024\<close> rounds to itself. So a finite result of rounding rounds to
  itself, and so does its double, when that is below \<open>2 powi 1024\<close>.
\<close>

lemma grid_finer:
  assumes "k' \<le> k"
  shows "of_int m * 2 powi k = of_int (m * 2 ^ nat (k - k')) * (2::rat) powi k'"
proof -
  have "(2::rat) powi k = 2 powi ((k - k') + k')" by simp
  also have "\<dots> = 2 powi (k - k') * 2 powi k'" by (rule power_int_add) simp
  also have "(2::rat) powi (k - k') = of_int (2 ^ nat (k - k'))"
    using assms by (simp add: powi_of_int)
  finally show ?thesis by simp
qed

lemma round_binary64_grid:
  assumes "0 < x" and "x = of_int m * 2 powi (max (ilog2 x) (- 1022) - 52)"
    and "x < 2 powi 1024"
  shows "round_binary64 x = Finite x"
proof -
  define ulp :: rat where "ulp = 2 powi (max (ilog2 x) (- 1022) - 52)"
  have x: "x = of_int m * ulp" using assms(2) by (simp add: ulp_def)
  have "ulp \<noteq> 0" by (simp add: ulp_def)
  then have "x / ulp = of_int m" by (simp add: x)
  then have "of_int (round_half_even (x / ulp)) * ulp = x"
    by (simp add: round_half_even_of_int x)
  with assms(1,3) show ?thesis
    by (simp add: round_binary64_def Let_def ulp_def [symmetric] not_le [symmetric])
qed

lemma round_binary64_Finite:
  assumes "0 < q" and "round_binary64 q = Finite x"
  shows "x = 0 \<or> (0 < x \<and> x < 2 powi 1024
           \<and> (\<exists>m. x = of_int m * 2 powi (max (ilog2 x) (- 1022) - 52)))"
proof -
  define e where "e = max (ilog2 q) (- 1022)"
  define ulp :: rat where "ulp = 2 powi (e - 52)"
  define m where "m = round_half_even (q / ulp)"
  have ulp: "0 < ulp" by (simp add: ulp_def)
  from assms have x: "x = of_int m * ulp" and fin: "x < 2 powi 1024"
    by (simp_all add: round_binary64_def Let_def e_def [symmetric] ulp_def [symmetric]
        m_def [symmetric] not_le split: if_splits)
  have "0 \<le> q / ulp" using assms(1) ulp by simp
  then have m0: "0 \<le> m" unfolding m_def by (intro round_half_even_ge) simp
  from ilog2_bounds [OF assms(1)] have "q < 2 powi (ilog2 q + 1)" by simp
  also have "\<dots> \<le> 2 powi (e + 1)" by (simp add: powi_le_iff e_def)
  finally have "q < 2 powi (e + 1)" .
  then have "q / ulp < 2 powi (e + 1) / ulp" using ulp by (simp add: divide_strict_right_mono)
  also have "2 powi (e + 1) / ulp = 2 powi (e + 1 - (e - 52))"
    unfolding ulp_def by (rule power_int_diff [symmetric]) simp
  also have "\<dots> = of_int (2 ^ 53)" by simp
  finally have "q / ulp \<le> of_int (2 ^ 53)" by simp
  then have m53: "m \<le> 2 ^ 53" unfolding m_def by (rule round_half_even_le)
  show ?thesis
  proof (cases "m = 0")
    case True
    then show ?thesis by (simp add: x)
  next
    case False
    with m0 have mpos: "0 < m" by simp
    then have xpos: "0 < x" using ulp by (simp add: x)
    have "\<exists>n. x = of_int n * 2 powi (max (ilog2 x) (- 1022) - 52)"
    proof (cases "m = 2 ^ 53")
      case True
      have "x = 2 powi 53 * 2 powi (e - 52)" by (simp add: x True ulp_def)
      also have "\<dots> = 2 powi (53 + (e - 52))" by (rule power_int_add [symmetric]) simp
      finally have x1: "x = 2 powi (e + 1)" by (simp add: algebra_simps)
      then have "ilog2 x = e + 1" by (intro ilog2_unique) (simp_all add: powi_less_iff)
      moreover have "- 1022 \<le> e" by (simp add: e_def)
      ultimately have "max (ilog2 x) (- 1022) - 52 = e - 51" by simp
      moreover have "x = of_int (2 ^ 52) * 2 powi (e - 51)"
      proof -
        have "(2::rat) powi (e + 1) = 2 powi (52 + (e - 51))"
          by (rule arg_cong [where f = "\<lambda>k. 2 powi k"]) simp
        also have "\<dots> = 2 powi 52 * 2 powi (e - 51)" by (rule power_int_add) simp
        finally show ?thesis by (simp add: x1)
      qed
      ultimately show ?thesis by metis
    next
      case False
      with m53 have "m + 1 \<le> 2 ^ 53" by simp
      then have "(of_int (m + 1) :: rat) \<le> of_int (2 ^ 53)" by (simp only: of_int_le_iff)
      then have "(of_int m :: rat) < 2 powi 53" by simp
      then have "x < 2 powi 53 * ulp" using ulp by (simp add: x)
      also have "2 powi 53 * ulp = 2 powi (53 + (e - 52))"
        unfolding ulp_def by (rule power_int_add [symmetric]) simp
      finally have xlt: "x < 2 powi (e + 1)" by (simp add: algebra_simps)
      from ilog2_bounds [OF xpos] have "2 powi (ilog2 x) \<le> x" by simp
      with xlt have "(2::rat) powi (ilog2 x) < 2 powi (e + 1)" by simp
      then have "ilog2 x \<le> e" by (simp add: powi_less_iff)
      moreover have "- 1022 \<le> e" by (simp add: e_def)
      ultimately have "max (ilog2 x) (- 1022) - 52 \<le> e - 52" by simp
      from grid_finer [OF this, of m] show ?thesis unfolding x ulp_def by blast
    qed
    with xpos fin show ?thesis by simp
  qed
qed

lemma round_binary64_idem:
  assumes "0 \<le> q" and "round_binary64 q = Finite x"
  shows "round_binary64 x = Finite x"
proof (cases "q = 0")
  case True
  with assms(2) show ?thesis by (simp add: round_binary64_def)
next
  case False
  with assms(1) have "0 < q" by simp
  from round_binary64_Finite [OF this assms(2)] show ?thesis
    by (auto simp: round_binary64_grid) (simp add: round_binary64_def)
qed

lemma round_binary64_nonneg:
  assumes "0 \<le> q" and "round_binary64 q = Finite x"
  shows "0 \<le> x"
proof (cases "q = 0")
  case True
  with assms(2) show ?thesis by (simp add: round_binary64_def)
next
  case False
  with assms(1) have "0 < q" by simp
  from round_binary64_Finite [OF this assms(2)] show ?thesis by auto
qed

lemma round_binary64_double:
  assumes "0 \<le> q" and "round_binary64 q = Finite x" and "x < 2 powi 1023"
  shows "round_binary64 (x + x) = Finite (x + x)"
proof (cases "q = 0 \<or> x = 0")
  case True
  with assms(2) show ?thesis by (auto simp: round_binary64_def)
next
  case False
  with assms(1) have "0 < q" and x0: "x \<noteq> 0" by simp_all
  from round_binary64_Finite [OF this(1) assms(2)] x0 obtain m
    where xpos: "0 < x" and m: "x = of_int m * 2 powi (max (ilog2 x) (- 1022) - 52)"
    by auto
  from ilog2_bounds [OF xpos] have "2 powi (ilog2 x) \<le> x" and "x < 2 powi (ilog2 x + 1)"
    by simp_all
  then have "2 powi (ilog2 x + 1) \<le> x + x" and "x + x < 2 powi (ilog2 x + 1 + 1)"
    by (simp_all add: power_int_add)
  then have l: "ilog2 (x + x) = ilog2 x + 1" by (rule ilog2_unique)
  have "x + x = of_int m * (2 powi (max (ilog2 x) (- 1022) - 52) * 2 powi 1)"
    using m by simp
  also have "2 powi (max (ilog2 x) (- 1022) - 52) * 2 powi 1
      = (2::rat) powi (max (ilog2 x) (- 1022) - 52 + 1)"
    by (rule power_int_add [symmetric]) simp
  finally have d: "x + x = of_int m * 2 powi (max (ilog2 x) (- 1022) - 52 + 1)" .
  have "max (ilog2 (x + x)) (- 1022) - 52 \<le> max (ilog2 x) (- 1022) - 52 + 1"
    unfolding l by simp
  from grid_finer [OF this, of m] d
  have "\<exists>n. x + x = of_int n * 2 powi (max (ilog2 (x + x)) (- 1022) - 52)" by metis
  then obtain n where n: "x + x = of_int n * 2 powi (max (ilog2 (x + x)) (- 1022) - 52)" ..
  have "x + x < 2 powi 1023 * 2 powi 1" using assms(3) by simp
  also have "\<dots> = (2::rat) powi 1024" by simp
  finally have "x + x < 2 powi 1024" .
  with xpos n show ?thesis by (intro round_binary64_grid [of _ n]) simp_all
qed

text \<open>
  Rounding keeps a number between the powers of two that bound it.
\<close>

lemma round_binary64_pos_def:
  "0 < q \<Longrightarrow> round_binary64 q =
     (if (2::rat) powi 1024 \<le> of_int (round_half_even (q / 2 powi (max (ilog2 q) (- 1022) - 52)))
                        * 2 powi (max (ilog2 q) (- 1022) - 52)
      then PosInf
      else Finite (of_int (round_half_even (q / 2 powi (max (ilog2 q) (- 1022) - 52)))
                   * 2 powi (max (ilog2 q) (- 1022) - 52)))"
  by (simp add: round_binary64_def Let_def)

lemma round_binary64_le_pow2:
  assumes "0 \<le> q" and "q \<le> 2 powi k" and "- 1022 \<le> k" and "k \<le> 1023"
  shows "\<exists>x. round_binary64 q = Finite x \<and> 0 \<le> x \<and> x \<le> 2 powi k"
proof (cases "q = 0")
  case True
  then show ?thesis by (simp add: round_binary64_def)
next
  case False
  with assms(1) have q: "0 < q" by simp
  define e where "e = max (ilog2 q) (- 1022)"
  define ulp :: rat where "ulp = 2 powi (e - 52)"
  define m where "m = round_half_even (q / ulp)"
  have ulp: "0 < ulp" by (simp add: ulp_def)
  from ilog2_bounds [OF q] assms(2) have "(2::rat) powi (ilog2 q) \<le> 2 powi k" by simp
  then have "ilog2 q \<le> k" by (simp add: powi_le_iff)
  with assms(3) have ek: "e \<le> k" by (simp add: e_def)
  have "q / ulp \<le> 2 powi k / ulp" using assms(2) ulp by (simp add: divide_right_mono)
  also have "2 powi k / ulp = 2 powi (k - (e - 52))"
    unfolding ulp_def by (rule power_int_diff [symmetric]) simp
  also have "\<dots> = of_int (2 ^ nat (k - (e - 52)))" using ek by (simp add: powi_of_int)
  finally have "m \<le> 2 ^ nat (k - (e - 52))" unfolding m_def by (rule round_half_even_le)
  then have "(of_int m :: rat) \<le> of_int (2 ^ nat (k - (e - 52)))" by (simp only: of_int_le_iff)
  also have "\<dots> = 2 powi (k - (e - 52))" using ek by (simp add: powi_of_int)
  finally have "of_int m * ulp \<le> 2 powi (k - (e - 52)) * ulp"
    using ulp by (simp add: mult_right_mono)
  also have "2 powi (k - (e - 52)) * ulp = 2 powi ((k - (e - 52)) + (e - 52))"
    unfolding ulp_def by (rule power_int_add [symmetric]) simp
  also have "(k - (e - 52)) + (e - 52) = k" by simp
  finally have xk: "of_int m * ulp \<le> 2 powi k" .
  have "(2::rat) powi k < 2 powi 1024" using assms(4) by (simp only: powi_less_iff)
  with xk have fin: "of_int m * ulp < 2 powi 1024" by (rule le_less_trans)
  have "0 \<le> q / ulp" using q ulp by simp
  then have "0 \<le> m" unfolding m_def by (intro round_half_even_ge) simp
  then have x0: "0 \<le> of_int m * ulp" using ulp by simp
  have "round_binary64 q
      = (if (2::rat) powi 1024 \<le> of_int m * ulp then PosInf else Finite (of_int m * ulp))"
    unfolding round_binary64_pos_def [OF q] m_def ulp_def e_def by (rule refl)
  moreover from fin have "\<not> 2 powi 1024 \<le> of_int m * ulp" by (simp only: not_le)
  ultimately have "round_binary64 q = Finite (of_int m * ulp)" by (simp only: if_False)
  with x0 xk show ?thesis by blast
qed

lemma round_binary64_ge_pow2:
  assumes "2 powi k \<le> q" and "- 1022 \<le> k" and "round_binary64 q = Finite x"
  shows "2 powi k \<le> x"
proof -
  have "(0::rat) < 2 powi k" by simp
  then have q: "0 < q" using assms(1) by (rule less_le_trans)
  define e where "e = ilog2 q"
  define ulp :: rat where "ulp = 2 powi (e - 52)"
  define m where "m = round_half_even (q / ulp)"
  have ulp: "0 < ulp" by (simp add: ulp_def)
  from ilog2_bounds [OF q] have lo: "2 powi e \<le> q" and hi: "q < 2 powi (e + 1)"
    by (simp_all add: e_def)
  from assms(1) hi have "(2::rat) powi k < 2 powi (e + 1)" by (rule le_less_trans)
  then have ke: "k \<le> e" by (simp add: powi_less_iff)
  with assms(2) have mx: "max (ilog2 q) (- 1022) = e" by (simp add: e_def)
  have "round_binary64 q
      = (if (2::rat) powi 1024 \<le> of_int m * ulp then PosInf else Finite (of_int m * ulp))"
    unfolding round_binary64_pos_def [OF q] mx m_def ulp_def by (rule refl)
  with assms(3) have x: "x = of_int m * ulp"
    by (cases "(2::rat) powi 1024 \<le> of_int m * ulp") (simp_all only: if_True if_False float64.simps)
  have "2 powi e / ulp \<le> q / ulp" using lo ulp by (simp add: divide_right_mono)
  moreover have "2 powi e / ulp = 2 powi (e - (e - 52))"
    unfolding ulp_def by (rule power_int_diff [symmetric]) simp
  moreover have "(2::rat) powi (e - (e - 52)) = of_int (2 ^ 52)" by simp
  ultimately have "of_int (2 ^ 52) \<le> q / ulp" by simp
  then have "2 ^ 52 \<le> m" unfolding m_def by (rule round_half_even_ge)
  then have "(of_int (2 ^ 52) :: rat) \<le> of_int m" by (simp only: of_int_le_iff)
  then have "2 powi 52 * ulp \<le> of_int m * ulp" using ulp by (simp add: mult_right_mono)
  moreover have "2 powi 52 * ulp = 2 powi (52 + (e - 52))"
    unfolding ulp_def by (rule power_int_add [symmetric]) simp
  moreover have "(2::rat) powi (52 + (e - 52)) = 2 powi e"
    by (rule arg_cong [where f = "\<lambda>k. 2 powi k"]) simp
  ultimately have "2 powi e \<le> x" by (simp add: x)
  moreover have "(2::rat) powi k \<le> 2 powi e" using ke by (simp add: powi_le_iff)
  ultimately show ?thesis by (rule order_trans [rotated])
qed

text \<open>
  The small integers are floats.
\<close>

lemma round_binary64_0: "round_binary64 0 = Finite 0"
  by (simp add: round_binary64_def)

lemma round_binary64_1: "round_binary64 1 = Finite 1"
  by (subst round_binary64_pos [where e = 0]) (simp_all add: round_half_even_def Let_def)

lemma round_binary64_2: "round_binary64 2 = Finite 2"
  by (subst round_binary64_pos [where e = 1]) (simp_all add: round_half_even_def Let_def)

lemma round_binary64_3: "round_binary64 3 = Finite 3"
  by (subst round_binary64_pos [where e = 1])
     (simp_all add: round_half_even_def Let_def floor_rat_numeral)

subsection \<open>Noun phrase incidence in binary64\<close>

text \<open>
  The score of a sentence of one noun phrase and nine words, and the partial sums and the
  mean of three such scores.
\<close>

lemma round_9_thousandths:
  "round_binary64 (9 / 1000) = Finite (5188146770730811 / 576460752303423488)"
  by (subst round_binary64_pos [where e = "- 7"]) (simp_all add: round_half_even_def Let_def floor_rat_numeral)

lemma round_ratio_1_9:
  "round_binary64 (1 / (5188146770730811 / 576460752303423488))
    = Finite (3909374676536889 / 35184372088832)"
  by (subst round_binary64_pos [where e = 6]) (simp_all add: round_half_even_def Let_def floor_rat_numeral)

lemma incidence_binary64_1_9:
  "incidence_binary64 1 9 = Inr (Finite (3909374676536889 / 35184372088832))"
  using round_9_thousandths round_ratio_1_9 round_binary64_1
  by (simp add: incidence_binary64_def int_truediv_def int_float_truediv_def float_of_int_def
      float_truediv_def)

lemma round_zero_plus_ratio:
  "round_binary64 (0 + 3909374676536889 / 35184372088832)
    = Finite (3909374676536889 / 35184372088832)"
  by (subst round_binary64_pos [where e = 6])
     (simp_all add: round_half_even_def Let_def floor_rat_numeral)

lemma round_two_ratios:
  "round_binary64 (3909374676536889 / 35184372088832 + 3909374676536889 / 35184372088832)
    = Finite (3909374676536889 / 17592186044416)"
  by (subst round_binary64_pos [where e = 7])
     (simp_all add: round_half_even_def Let_def floor_rat_numeral)

lemma round_three_ratios:
  "round_binary64 (3909374676536889 / 17592186044416 + 3909374676536889 / 35184372088832)
    = Finite (2932031007402667 / 8796093022208)"
  by (subst round_binary64_pos [where e = 8])
     (simp_all add: round_half_even_def Let_def floor_rat_numeral)

lemma round_mean_of_three:
  "round_binary64 (2932031007402667 / 8796093022208 / 3)
    = Finite (7818749353073779 / 70368744177664)"
  by (subst round_binary64_pos [where e = 6])
     (simp_all add: round_half_even_def Let_def floor_rat_numeral)

text \<open>
  When all sentences have the same counts, the loop collects one score for each.
\<close>

lemma sent_indices_binary64_same:
  assumes "length trees \<le> length (drop i tagged_sents)"
    and "\<forall>(tree, sent) \<in> set (zip trees (drop i tagged_sents)).
           count_constituents ''NP'' tree = nps \<and> word_count is_punctuation sent = words"
    and "incidence_binary64 nps words = Inr x"
  shows "NounPhraseIncidence_sent_indices_binary64 is_punctuation tagged_sents i trees acc
       = Inr (acc @ replicate (length trees) x)"
  using assms(1,2)
proof (induction trees arbitrary: i acc)
  case Nil
  then show ?case by simp
next
  case (Cons tree rest)
  from Cons.prems(1) have i: "i < length tagged_sents" by simp
  then have d: "drop i tagged_sents = tagged_sents ! i # drop (Suc i) tagged_sents"
    by (simp add: Cons_nth_drop_Suc)
  from Cons.prems(2) have c: "length (find_subtrees tree ''NP'') = nps"
    and w: "length (filter (\<lambda>word. \<not> is_punctuation word) (tagged_sents ! i)) = words"
    by (simp_all add: d length_find_subtrees word_count_def)
  have l: "length rest \<le> length (drop (Suc i) tagged_sents)"
    using Cons.prems(1) by simp
  have r: "\<forall>(tree, sent) \<in> set (zip rest (drop (Suc i) tagged_sents)).
             count_constituents ''NP'' tree = nps \<and> word_count is_punctuation sent = words"
    using Cons.prems(2) by (simp add: d)
  from assms(3) obtain dv where dv: "int_truediv (int words) 1000 = Inr dv"
    and x: "int_float_truediv (int nps) dv = Inr x"
    by (auto simp: incidence_binary64_def split: sum.splits)
  show ?case
    using i Cons.IH [OF l r, of "acc @ [x]"]
    by (simp add: c w dv x Let_def replicate_app_Cons_same)
qed

lemma value_for_text_binary64_same:
  assumes "parse_trees \<noteq> []"
    and "length parse_trees \<le> length tagged_sents"
    and "\<forall>(tree, sent) \<in> set (zip parse_trees tagged_sents).
           count_constituents ''NP'' tree = nps \<and> word_count is_punctuation sent = words"
    and "incidence_binary64 nps words = Inr x"
  shows "NounPhraseIncidence_value_for_text_binary64 is_punctuation parse_trees tagged_sents
       = float_int_truediv (py_sum (replicate (length parse_trees) x))
           (int (length parse_trees))"
  using assms
    sent_indices_binary64_same [of parse_trees 0 tagged_sents nps is_punctuation words x "[]"]
  by (simp add: NounPhraseIncidence_value_for_text_binary64_def)

lemma incidence_binary64_rounded:
  assumes "incidence_binary64 nps words = Inr (Finite x)"
  shows "\<exists>q\<ge>0. round_binary64 q = Finite x"
proof -
  from assms obtain d where d: "int_truediv (int words) 1000 = Inr d"
    and x: "int_float_truediv (int nps) d = Inr (Finite x)"
    by (auto simp: incidence_binary64_def split: sum.splits)
  from d obtain dq where dq: "round_binary64 (of_int (int words) / of_int 1000) = Finite dq"
    and dd: "d = Finite dq"
    by (auto simp: int_truediv_def split: float64.splits)
  from x obtain nq where nq: "round_binary64 (of_int (int nps)) = Finite nq"
    and xq: "float_truediv (Finite nq) d = Inr (Finite x)"
    by (auto simp: int_float_truediv_def float_of_int_def split: float64.splits sum.splits)
  have "0 \<le> dq" using dq by (rule round_binary64_nonneg [rotated]) simp
  moreover have "0 \<le> nq" using nq by (rule round_binary64_nonneg [rotated]) simp
  ultimately have "0 \<le> nq / dq" by simp
  moreover from xq have "round_binary64 (nq / dq) = Finite x"
    by (simp add: float_truediv_def dd split: if_splits)
  ultimately show ?thesis by blast
qed

text \<open>
  With counts below \<open>2 ^ 63\<close>, as the lengths of Python lists are, and a word count that is
  not zero, the score is a finite float, far from overflow.
\<close>

lemma incidence_binary64_finite:
  assumes "0 < words" and "nps < 2 ^ 63" and "words < 2 ^ 63"
  shows "\<exists>x. incidence_binary64 nps words = Inr (Finite x) \<and> x < 2 powi 1023"
proof -
  have w1: "(1::rat) \<le> of_int (int words)" using assms(1) by simp
  have "int words \<le> 2 ^ 63" using assms(3) by simp
  then have "(of_int (int words) :: rat) \<le> of_int (2 ^ 63)" by (simp only: of_int_le_iff)
  then have w2: "(of_int (int words) :: rat) \<le> 2 powi 63" by simp
  have q1: "(0::rat) \<le> of_int (int words) / of_int 1000" by simp
  have "(of_int (int words) :: rat) / of_int 1000 \<le> of_int (int words)" by simp
  then have "(of_int (int words) :: rat) / of_int 1000 \<le> 2 powi 63"
    using w2 by (rule order_trans)
  from round_binary64_le_pow2 [OF q1 this] obtain d
    where d: "round_binary64 (of_int (int words) / of_int 1000) = Finite d"
      and d63: "d \<le> 2 powi 63"
    by auto
  have "(2::rat) powi (- 10) \<le> 1 / 1000" by simp
  also have "\<dots> \<le> of_int (int words) / of_int 1000" using w1 by simp
  finally have le: "2 powi (- 10) \<le> (of_int (int words) :: rat) / of_int 1000" .
  have "2 powi (- 10) \<le> d" by (rule round_binary64_ge_pow2 [OF le _ d]) simp
  then have d10: "1 / d \<le> 2 powi 10" and dpos: "0 < d"
    by (simp_all add: field_simps)
  have "int nps \<le> 2 ^ 63" using assms(2) by simp
  then have "(of_int (int nps) :: rat) \<le> of_int (2 ^ 63)" by (simp only: of_int_le_iff)
  then have "(of_int (int nps) :: rat) \<le> 2 powi 63" by simp
  moreover have "(0::rat) \<le> of_int (int nps)" by simp
  ultimately obtain n where n: "round_binary64 (of_int (int nps)) = Finite n"
    and n0: "0 \<le> n" and n63: "n \<le> 2 powi 63"
    using round_binary64_le_pow2 [of "of_int (int nps)" 63] by auto
  have "n / d = n * (1 / d)" by simp
  also have "\<dots> \<le> 2 powi 63 * 2 powi 10"
    using n0 n63 d10 dpos by (intro mult_mono) simp_all
  also have "\<dots> = (2::rat) powi 73" by simp
  finally have "n / d \<le> 2 powi 73" .
  moreover have "0 \<le> n / d" using n0 dpos by simp
  ultimately obtain x where x: "round_binary64 (n / d) = Finite x" and x73: "x \<le> 2 powi 73"
    using round_binary64_le_pow2 [of "n / d" 73] by auto
  have "(2::rat) powi 73 < 2 powi 1023" by (simp only: powi_less_iff)
  with x73 have "x < 2 powi 1023" by (rule le_less_trans)
  moreover have "incidence_binary64 nps words = Inr (Finite x)"
    using d n x dpos
    by (simp add: incidence_binary64_def int_truediv_def int_float_truediv_def
        float_of_int_def float_truediv_def)
  ultimately show ?thesis by blast
qed

text \<open>
  The mean of one float, and of a float taken twice, is the float.
\<close>

lemma mean_one_binary64:
  assumes "0 \<le> q" and "round_binary64 q = Finite x"
  shows "float_int_truediv (py_sum [Finite x]) 1 = Inr (Finite x)"
  using round_binary64_idem [OF assms] round_binary64_1
  by (simp add: py_sum_def float_int_truediv_def float_of_int_def float_truediv_def)

lemma mean_two_binary64:
  assumes "0 \<le> q" and "round_binary64 q = Finite x" and "x < 2 powi 1023"
  shows "float_int_truediv (py_sum [Finite x, Finite x]) 2 = Inr (Finite x)"
proof -
  have "py_sum [Finite x, Finite x] = Finite (x + x)"
    using round_binary64_idem [OF assms(1,2)] round_binary64_double [OF assms]
    by (simp add: py_sum_def)
  moreover have "(x + x) / 2 = x" by simp
  ultimately show ?thesis
    using round_binary64_idem [OF assms(1,2)] round_binary64_2
    by (simp only: float_int_truediv_def float_of_int_def float_truediv_def float_div.simps
        of_int_numeral) simp
qed

text \<open>
  C8, as amended. For a text with at least one sentence, where every sentence has a tagged
  sentence, the same number of noun phrases and the same number of words, and that number
  of words is not zero, \<^verbatim>\<open>NounPhraseIncidence.value_for_text\<close> is the common score
  \<open>NP_count / (word_count/1000)\<close> of the sentences in exact arithmetic. In the binary64
  arithmetic of Python it is exactly the common score, as Python computes it, for one
  sentence and for two sentences (the counts being below \<open>2 ^ 63\<close>); from three sentences on,
  the sum and the division round, and the result can differ from the score.
\<close>

theorem same_counts_incidence:
  assumes "parse_trees \<noteq> []"
    and "length parse_trees \<le> length tagged_sents"
    and "\<forall>(tree, sent) \<in> set (zip parse_trees tagged_sents).
           count_constituents ''NP'' tree = nps \<and> word_count is_punctuation sent = words"
    and "0 < words"
  shows "NounPhraseIncidence_value_for_text is_punctuation parse_trees tagged_sents
           = Inr (real nps / (real words / 1000))
       \<and> (length parse_trees \<le> 2 \<and> nps < 2 ^ 63 \<and> words < 2 ^ 63 \<longrightarrow>
          (\<exists>x. incidence_binary64 nps words = Inr (Finite x)
             \<and> NounPhraseIncidence_value_for_text_binary64 is_punctuation parse_trees
                 tagged_sents = Inr (Finite x)))"
proof
  have pos: "\<forall>(tree, sent) \<in> set (zip parse_trees tagged_sents).
      0 < word_count is_punctuation sent"
    using assms(3,4) by auto
  have "map (incidence is_punctuation) (zip parse_trees tagged_sents)
      = replicate (length (zip parse_trees tagged_sents)) (real nps / (real words / 1000))"
    using assms(3) by (intro replicate_eqI) (auto simp: incidence_def)
  moreover have "length (zip parse_trees tagged_sents) = length parse_trees"
    using assms(2) by simp
  ultimately have "arithmetic_mean (map (incidence is_punctuation) (zip parse_trees tagged_sents))
      = real nps / (real words / 1000)"
    using assms(1) by (simp add: arithmetic_mean_def sum_list_replicate)
  with value_for_text_zip [OF assms(1,2) pos]
  show "NounPhraseIncidence_value_for_text is_punctuation parse_trees tagged_sents
           = Inr (real nps / (real words / 1000))"
    by simp
next
  show "length parse_trees \<le> 2 \<and> nps < 2 ^ 63 \<and> words < 2 ^ 63 \<longrightarrow>
          (\<exists>x. incidence_binary64 nps words = Inr (Finite x)
             \<and> NounPhraseIncidence_value_for_text_binary64 is_punctuation parse_trees
                 tagged_sents = Inr (Finite x))"
  proof
    assume h: "length parse_trees \<le> 2 \<and> nps < 2 ^ 63 \<and> words < 2 ^ 63"
    with assms(4) obtain x where x: "incidence_binary64 nps words = Inr (Finite x)"
      and small: "x < 2 powi 1023"
      using incidence_binary64_finite [of words nps] by blast
    from x obtain q where q: "0 \<le> q" "round_binary64 q = Finite x"
      using incidence_binary64_rounded by blast
    from h have "length parse_trees \<le> 2" by blast
    moreover from assms(1) have "0 < length parse_trees" by simp
    ultimately have "length parse_trees = 1 \<or> length parse_trees = 2" by arith
    then have "NounPhraseIncidence_value_for_text_binary64 is_punctuation parse_trees
        tagged_sents = Inr (Finite x)"
    proof
      assume n: "length parse_trees = 1"
      show ?thesis
        using value_for_text_binary64_same [OF assms(1,2,3) x] mean_one_binary64 [OF q]
        by (simp add: n)
    next
      assume n: "length parse_trees = 2"
      show ?thesis
        using value_for_text_binary64_same [OF assms(1,2,3) x]
          mean_two_binary64 [OF q small]
        by (simp add: n numeral_2_eq_2)
    qed
    with x show "\<exists>x. incidence_binary64 nps words = Inr (Finite x)
             \<and> NounPhraseIncidence_value_for_text_binary64 is_punctuation parse_trees
                 tagged_sents = Inr (Finite x)"
      by blast
  qed
qed

text \<open>Two sentences of one noun phrase and nine words each.\<close>

theorem same_counts_incidence_witness:
  "replicate 2 (Tree ''S'' [Tree ''NP'' [Leaf ''casa'']]) \<noteq> []
   \<and> count_constituents ''NP'' (Tree ''S'' [Tree ''NP'' [Leaf ''casa'']]) = 1
   \<and> word_count example_is_punctuation (replicate 9 (''casa'', ''N'')) = 9
   \<and> (1::nat) < 2 ^ 63 \<and> (9::nat) < 2 ^ 63
   \<and> NounPhraseIncidence_value_for_text example_is_punctuation
        (replicate 2 (Tree ''S'' [Tree ''NP'' [Leaf ''casa'']]))
        (replicate 2 (replicate 9 (''casa'', ''N''))) = Inr (1 / (9 / 1000))
   \<and> NounPhraseIncidence_value_for_text_binary64 example_is_punctuation
        (replicate 2 (Tree ''S'' [Tree ''NP'' [Leaf ''casa'']]))
        (replicate 2 (replicate 9 (''casa'', ''N'')))
      = Inr (Finite (3909374676536889 / 35184372088832))"
proof -
  have h: "\<forall>(tree, sent) \<in> set (zip (replicate 2 (Tree ''S'' [Tree ''NP'' [Leaf ''casa'']]))
                                 (replicate 2 (replicate 9 (''casa'', ''N'')))).
        count_constituents ''NP'' tree = 1 \<and> word_count example_is_punctuation sent = 9"
    by (simp add: word_count_def example_is_punctuation_def numeral_2_eq_2)
  have c: "count_constituents ''NP'' (Tree ''S'' [Tree ''NP'' [Leaf ''casa'']]) = 1
      \<and> word_count example_is_punctuation (replicate 9 (''casa'', ''N'')) = 9"
    by (simp add: word_count_def example_is_punctuation_def)
  have "NounPhraseIncidence_value_for_text example_is_punctuation
        (replicate 2 (Tree ''S'' [Tree ''NP'' [Leaf ''casa'']]))
        (replicate 2 (replicate 9 (''casa'', ''N''))) = Inr (1 / (9 / 1000))
      \<and> (\<exists>x. incidence_binary64 1 9 = Inr (Finite x)
            \<and> NounPhraseIncidence_value_for_text_binary64 example_is_punctuation
                (replicate 2 (Tree ''S'' [Tree ''NP'' [Leaf ''casa'']]))
                (replicate 2 (replicate 9 (''casa'', ''N''))) = Inr (Finite x))"
    using h same_counts_incidence [of "replicate 2 (Tree ''S'' [Tree ''NP'' [Leaf ''casa'']])"
        "replicate 2 (replicate 9 (''casa'', ''N''))" 1 example_is_punctuation 9]
    by simp
  then obtain x where e: "NounPhraseIncidence_value_for_text example_is_punctuation
        (replicate 2 (Tree ''S'' [Tree ''NP'' [Leaf ''casa'']]))
        (replicate 2 (replicate 9 (''casa'', ''N''))) = Inr (1 / (9 / 1000))"
    and x: "incidence_binary64 1 9 = Inr (Finite x)"
    and v: "NounPhraseIncidence_value_for_text_binary64 example_is_punctuation
                (replicate 2 (Tree ''S'' [Tree ''NP'' [Leaf ''casa'']]))
                (replicate 2 (replicate 9 (''casa'', ''N''))) = Inr (Finite x)"
    by blast
  from x have "x = 3909374676536889 / 35184372088832"
    by (simp only: incidence_binary64_1_9 sum.inject float64.inject)
  with e v c show ?thesis by simp
qed

text \<open>
  The claim as it stands, for every number of sentences, fails for three sentences of one
  noun phrase and nine words each: the score of each sentence is the float
  111.11111111111111, their sum rounds to 333.33333333333337, and a third of it rounds to
  111.11111111111113, which is neither the score as Python computes it nor the number
  1000/9. It fails as well for a sentence that is punctuation only, where the division
  raises \<^verbatim>\<open>ZeroDivisionError\<close>.
\<close>

theorem three_sentences_rounded:
  "incidence_binary64 1 9 = Inr (Finite (3909374676536889 / 35184372088832))
   \<and> NounPhraseIncidence_value_for_text_binary64 example_is_punctuation
       (replicate 3 (Tree ''S'' [Tree ''NP'' [Leaf ''casa'']]))
       (replicate 3 (replicate 9 (''casa'', ''N'')))
     = Inr (Finite (7818749353073779 / 70368744177664))
   \<and> NounPhraseIncidence_value_for_text_binary64 example_is_punctuation
       (replicate 3 (Tree ''S'' [Tree ''NP'' [Leaf ''casa'']]))
       (replicate 3 (replicate 9 (''casa'', ''N'')))
     \<noteq> incidence_binary64 1 9
   \<and> NounPhraseIncidence_value_for_text_binary64 example_is_punctuation
       (replicate 3 (Tree ''S'' [Tree ''NP'' [Leaf ''casa'']]))
       (replicate 3 (replicate 9 (''casa'', ''N'')))
     \<noteq> Inr (Finite (1 / (9 / 1000)))
   \<and> NounPhraseIncidence_value_for_text_binary64 example_is_punctuation
       [Tree ''S'' [Leaf ''...'']] [[(''...'', ''PU'')]]
     = Inl ZeroDivisionError"
proof -
  have z: "NounPhraseIncidence_value_for_text_binary64 example_is_punctuation
       [Tree ''S'' [Leaf ''...'']] [[(''...'', ''PU'')]]
     = Inl ZeroDivisionError"
    using round_binary64_0
    by (simp add: NounPhraseIncidence_value_for_text_binary64_def find_subtrees_def
        example_is_punctuation_def int_truediv_def int_float_truediv_def float_of_int_def
        float_truediv_def)
  have "NounPhraseIncidence_value_for_text_binary64 example_is_punctuation
       (replicate 3 (Tree ''S'' [Tree ''NP'' [Leaf ''casa'']]))
       (replicate 3 (replicate 9 (''casa'', ''N'')))
     = float_int_truediv (py_sum (replicate 3 (Finite (3909374676536889 / 35184372088832)))) 3"
    using value_for_text_binary64_same
        [of "replicate 3 (Tree ''S'' [Tree ''NP'' [Leaf ''casa'']])"
          "replicate 3 (replicate 9 (''casa'', ''N''))" 1 example_is_punctuation 9,
          OF _ _ _ incidence_binary64_1_9]
    by (simp add: word_count_def example_is_punctuation_def)
  also have "\<dots> = Inr (Finite (7818749353073779 / 70368744177664))"
    using round_zero_plus_ratio round_two_ratios round_three_ratios round_mean_of_three
      round_binary64_3
    by (simp add: py_sum_def float_int_truediv_def float_of_int_def float_truediv_def
        numeral_3_eq_3)
  finally show ?thesis using incidence_binary64_1_9 z by simp
qed

end
